theory Spec2Isabelle
  imports Complex_Main
begin

section \<open>Point-source finding and fitting (dory.py)\<close>

text \<open>
  The embedding follows \<^verbatim>\<open>src/dory.py\<close> function by function. numpy arrays are
  lists, a structured array is a list of records, python sets of indices are duplicate
  free lists. Floating-point numbers are real numbers (rounding is not modelled); where
  a function's behaviour depends on the non-finite values of IEEE arithmetic
  (\<^verbatim>\<open>merge_duplicates\<close>, \<^verbatim>\<open>merge_maps_onto\<close>) they are values of the type
  \<open>npfloat\<close> below, which adds the two infinities and NaN to the reals. Functions of
  scipy and of the map library (labelling, interpolation, Fourier transforms, the k-d
  tree) are not part of the sources; they enter as parameters, or as definitions marked
  as modelled.
\<close>

subsection \<open>numpy floating-point values\<close>

text \<open>
  A float of numpy is a real number, one of the two infinities, or NaN. Rounding is not
  modelled, and neither is the sign of zero: a zero divisor counts as \<open>+0\<close>. The
  operations are those of IEEE 754 on these values.
\<close>

datatype npfloat = Fin real | PInf | NInf | NaN

fun fneg :: "npfloat \<Rightarrow> npfloat" where
  "fneg (Fin x) = Fin (- x)"
| "fneg PInf = NInf"
| "fneg NInf = PInf"
| "fneg NaN = NaN"

fun fabs :: "npfloat \<Rightarrow> npfloat" where
  "fabs (Fin x) = Fin \<bar>x\<bar>"
| "fabs PInf = PInf"
| "fabs NInf = PInf"
| "fabs NaN = NaN"

fun fadd :: "npfloat \<Rightarrow> npfloat \<Rightarrow> npfloat" where
  "fadd (Fin x) (Fin y) = Fin (x + y)"
| "fadd NaN b = NaN"
| "fadd a NaN = NaN"
| "fadd PInf NInf = NaN"
| "fadd NInf PInf = NaN"
| "fadd PInf b = PInf"
| "fadd a PInf = PInf"
| "fadd NInf b = NInf"
| "fadd a NInf = NInf"

definition fsub :: "npfloat \<Rightarrow> npfloat \<Rightarrow> npfloat" where
  "fsub a b = fadd a (fneg b)"

text \<open>An infinity of the sign of a real number; an infinity times zero, and zero divided by
  zero, are NaN.\<close>

definition inf_of_sign :: "real \<Rightarrow> npfloat" where
  "inf_of_sign s = (if s = 0 then NaN else if 0 < s then PInf else NInf)"

fun fmul :: "npfloat \<Rightarrow> npfloat \<Rightarrow> npfloat" where
  "fmul (Fin x) (Fin y) = Fin (x * y)"
| "fmul NaN b = NaN"
| "fmul a NaN = NaN"
| "fmul PInf (Fin y) = inf_of_sign y"
| "fmul NInf (Fin y) = inf_of_sign (- y)"
| "fmul (Fin x) PInf = inf_of_sign x"
| "fmul (Fin x) NInf = inf_of_sign (- x)"
| "fmul PInf PInf = PInf"
| "fmul NInf NInf = PInf"
| "fmul PInf NInf = NInf"
| "fmul NInf PInf = NInf"

fun fdiv :: "npfloat \<Rightarrow> npfloat \<Rightarrow> npfloat" where
  "fdiv (Fin x) (Fin y) = (if y = 0 then inf_of_sign x else Fin (x / y))"
| "fdiv NaN b = NaN"
| "fdiv a NaN = NaN"
| "fdiv (Fin x) PInf = Fin 0"
| "fdiv (Fin x) NInf = Fin 0"
| "fdiv PInf (Fin y) = (if 0 \<le> y then PInf else NInf)"
| "fdiv NInf (Fin y) = (if 0 \<le> y then NInf else PInf)"
| "fdiv PInf b = NaN"
| "fdiv NInf b = NaN"

fun fle :: "npfloat \<Rightarrow> npfloat \<Rightarrow> bool" where
  "fle (Fin x) (Fin y) = (x \<le> y)"
| "fle NaN b = False"
| "fle a NaN = False"
| "fle NInf b = True"
| "fle a PInf = True"
| "fle PInf b = False"
| "fle a NInf = False"

definition is_nan :: "npfloat \<Rightarrow> bool" where
  "is_nan a = (a = NaN)"

text \<open>\<^verbatim>\<open>np.minimum\<close>, \<^verbatim>\<open>np.maximum\<close> (and \<^verbatim>\<open>np.min\<close>, \<^verbatim>\<open>np.max\<close>) propagate NaN.\<close>

definition np_minimum :: "npfloat \<Rightarrow> npfloat \<Rightarrow> npfloat" where
  "np_minimum a b = (if is_nan a \<or> is_nan b then NaN else if fle a b then a else b)"

definition np_maximum :: "npfloat \<Rightarrow> npfloat \<Rightarrow> npfloat" where
  "np_maximum a b = (if is_nan a \<or> is_nan b then NaN else if fle a b then b else a)"

definition np_sum :: "npfloat list \<Rightarrow> npfloat" where
  "np_sum xs = foldl fadd (Fin 0) xs"

fun fcos :: "npfloat \<Rightarrow> npfloat" where
  "fcos (Fin x) = Fin (cos x)"
| "fcos a = NaN"

text \<open>The exceptions that the functions below can raise by themselves: an index that does
  not exist or is not an integer, and a singular matrix in \<^verbatim>\<open>np.linalg.solve\<close>. A function
  that can raise returns a sum, the exception on the left.\<close>

datatype py_exception = IndexError | LinAlgError

subsection \<open>\<^verbatim>\<open>fit_labeled_srcs\<close>: centre of mass against the extremum\<close>

text \<open>
  For every label in \<^verbatim>\<open>inds\<close> the function reads six numbers and positions off the
  map: the centre of mass and the map interpolated there
  (\<^verbatim>\<open>ndimage.center_of_mass\<close>, \<^verbatim>\<open>fmap.at\<close>), and the positions and values of the
  maximum and of the minimum of the component (\<^verbatim>\<open>ndimage.maximum_position\<close>,
  \<^verbatim>\<open>ndimage.maximum\<close>, \<^verbatim>\<open>ndimage.minimum_position\<close>, \<^verbatim>\<open>ndimage.minimum\<close>).
  One record holds them for one component; the arrays of the source are lists of them.
\<close>

type_synonym pix = "real \<times> real"

record component =
  pos_com :: pix
  amp_com :: real
  pos_max :: pix
  amp_max :: real
  pos_min :: pix
  amp_min :: real

definition negative :: "component \<Rightarrow> bool" where
  "negative c = (amp_com c < 0)"

text \<open>\<^verbatim>\<open>pos_ext = pos_max.copy(); pos_ext[negative] = pos_min[negative]\<close>, and the
  same for \<^verbatim>\<open>amp_ext\<close>.\<close>

definition pos_ext :: "component \<Rightarrow> pix" where
  "pos_ext c = (if negative c then pos_min c else pos_max c)"

definition amp_ext :: "component \<Rightarrow> real" where
  "amp_ext c = (if negative c then amp_min c else amp_max c)"

text \<open>\<^verbatim>\<open>extended = np.abs(amp_ext) > np.abs(amp_com)*extended_threshold\<close>\<close>

definition extended :: "real \<Rightarrow> component \<Rightarrow> bool" where
  "extended extended_threshold c = (\<bar>amp_ext c\<bar> > \<bar>amp_com c\<bar> * extended_threshold)"

text \<open>
  \<^verbatim>\<open>pos, amp = pos_com.copy(), amp_com.copy()\<close>, then
  \<^verbatim>\<open>pos[extended] = pos_max[extended]\<close> and \<^verbatim>\<open>amp[extended] = amp_max[extended]\<close>:
  the source assigns from \<^verbatim>\<open>pos_max\<close> and \<^verbatim>\<open>amp_max\<close>, not from \<^verbatim>\<open>pos_ext\<close> and
  \<^verbatim>\<open>amp_ext\<close>.
\<close>

definition fit_component :: "real \<Rightarrow> component \<Rightarrow> pix \<times> real" where
  "fit_component extended_threshold c =
     (if extended extended_threshold c then (pos_max c, amp_max c) else (pos_com c, amp_com c))"

definition fit_labeled_srcs :: "real \<Rightarrow> component list \<Rightarrow> pix list \<times> real list" where
  "fit_labeled_srcs extended_threshold cs =
     (map (\<lambda>c. fst (fit_component extended_threshold c)) cs,
      map (\<lambda>c. snd (fit_component extended_threshold c)) cs)"

text \<open>
  A negative extended component: the five pixels (4,1) to (4,5) of one row with the values
  -20, -4, -6, -8, -18. Its centre of mass is the pixel (4,3), where the map is -6; its
  maximum is -4 at (4,2) and its minimum -20 at (4,1).
\<close>

definition neg_blob :: component where
  "neg_blob = \<lparr>pos_com = (4, 3), amp_com = - 6,
               pos_max = (4, 2), amp_max = - 4,
               pos_min = (4, 1), amp_min = - 20\<rparr>"

lemma fit_component_not_extended:
  "\<not> extended t c \<Longrightarrow> fit_component t c = (pos_com c, amp_com c)"
  by (simp add: fit_component_def)

lemma fit_component_extended_positive:
  "extended t c \<Longrightarrow> \<not> negative c \<Longrightarrow> fit_component t c = (pos_ext c, amp_ext c)"
  by (simp add: fit_component_def pos_ext_def amp_ext_def)

text \<open>
  C5. The claim: a component is extended exactly when the absolute extremum exceeds the
  absolute centre-of-mass amplitude by more than the ratio, and an extended component
  is returned with the position and amplitude of its extremum, the minimum when it is
  negative. On \<open>neg_blob\<close>, which is negative and extended for the default ratio 1.1,
  the source returns the position and the value of the maximum, (4, 2) and -4, where the
  extremum is the minimum, at (4, 1) with the value -20.
\<close>

theorem fit_labeled_srcs_negative_extended:
  "negative neg_blob \<and> extended (11 / 10) neg_blob \<and>
   fit_labeled_srcs (11 / 10) [neg_blob] = ([(4, 2)], [- 4]) \<and>
   (pos_ext neg_blob, amp_ext neg_blob) = ((4, 1), - 20) \<and>
   fit_labeled_srcs (11 / 10) [neg_blob] \<noteq> ([pos_ext neg_blob], [amp_ext neg_blob])"
  by (simp add: fit_labeled_srcs_def fit_component_def extended_def amp_ext_def pos_ext_def
      negative_def neg_blob_def)

subsection \<open>\<^verbatim>\<open>find_srcs\<close>: the block loop and its significance cutoff\<close>

text \<open>
  One pass of \<^verbatim>\<open>find_srcs\<close> filters the map and then runs up to \<^verbatim>\<open>nblock\<close> blocks. The
  maps \<^verbatim>\<open>fmap\<close>, \<^verbatim>\<open>norm\<close> and \<^verbatim>\<open>apod_map\<close> are the lists of their pixels. Two steps of
  a block are library calls and stay parameters: \<open>label_sn\<close> stands for
  \<^verbatim>\<open>ndimage.label\<close> on the thresholded \<^verbatim>\<open>snmap\<close> followed by
  \<^verbatim>\<open>ndimage.maximum(np.abs(snmap), labels, all_inds+1)\<close> and gives the peak significance
  of every component, and \<open>subtract\<close> stands for the fit of the kept components and
  \<^verbatim>\<open>fmap -= model\<close>. What a block decides is kept in a record.
\<close>

record block =
  sn_lim :: real
  sn :: "real list"
  keep :: "nat list"

text \<open>\<^verbatim>\<open>sn_lim = np.max(np.abs(fmap/norm)*(apod_map>0))\<close>; \<^verbatim>\<open>np.max\<close> raises on an empty
  array, which is the value \<open>None\<close>.\<close>

definition sn_lim_start :: "real list \<Rightarrow> real list \<Rightarrow> real list \<Rightarrow> real option" where
  "sn_lim_start fmap nrm apod_map =
     (if fmap = [] then None
      else Some (Max (set (map (\<lambda>(f, n, a). \<bar>f / n\<bar> * (if a > 0 then 1 else 0))
                               (zip fmap (zip nrm apod_map))))))"

text \<open>\<^verbatim>\<open>sn_lim = max(snmin, min(sn_lim, np.max(sn))/snblock)\<close>\<close>

definition update_sn_lim :: "real \<Rightarrow> real \<Rightarrow> real \<Rightarrow> real list \<Rightarrow> real" where
  "update_sn_lim snmin snblock thr sns = max snmin (min thr (Max (set sns)) / snblock)"

text \<open>\<^verbatim>\<open>keep = np.where(sn >= sn_lim)[0]\<close>\<close>

definition select_keep :: "real \<Rightarrow> real list \<Rightarrow> nat list" where
  "select_keep thr sns = filter (\<lambda>k. sns ! k \<ge> thr) [0..<length sns]"

text \<open>
  The loop \<^verbatim>\<open>for iblock in range(nblock)\<close> with its three exits: no component
  (\<^verbatim>\<open>nlabel == 0\<close>), nothing kept (\<^verbatim>\<open>len(keep) == 0\<close>), and the cutoff at the floor
  (\<^verbatim>\<open>sn_lim <= snmin\<close>) after the block's fit.
\<close>

fun block_loop ::
  "(real list \<Rightarrow> real list) \<Rightarrow> (real list \<Rightarrow> nat list \<Rightarrow> real list) \<Rightarrow> real \<Rightarrow> real \<Rightarrow>
   real list \<Rightarrow> nat \<Rightarrow> real \<Rightarrow> real list \<Rightarrow> block list"
where
  "block_loop label_sn subtract snmin snblock nrm 0 thr fmap = []"
| "block_loop label_sn subtract snmin snblock nrm (Suc nblock) thr fmap =
     (let snmap = map2 (/) fmap nrm;
          sns = label_sn snmap
      in if sns = [] then []
      else
        let thr' = update_sn_lim snmin snblock thr sns;
            kept = select_keep thr' sns
        in if kept = [] then []
           else \<lparr>sn_lim = thr', sn = sns, keep = kept\<rparr> #
                (if thr' \<le> snmin then []
                 else block_loop label_sn subtract snmin snblock nrm nblock thr'
                        (subtract fmap kept)))"

definition find_srcs_blocks ::
  "(real list \<Rightarrow> real list) \<Rightarrow> (real list \<Rightarrow> nat list \<Rightarrow> real list) \<Rightarrow> real \<Rightarrow> real \<Rightarrow> nat \<Rightarrow>
   real list \<Rightarrow> real list \<Rightarrow> real list \<Rightarrow> block list option"
where
  "find_srcs_blocks label_sn subtract snmin snblock nblock fmap nrm apod_map =
     (case sn_lim_start fmap nrm apod_map of
        None \<Rightarrow> None
      | Some thr0 \<Rightarrow> Some (block_loop label_sn subtract snmin snblock nrm nblock thr0 fmap))"

text \<open>What holds of a block, given the cutoff before it.\<close>

definition block_ok :: "real \<Rightarrow> real \<Rightarrow> real \<Rightarrow> block \<Rightarrow> bool" where
  "block_ok snmin snblock prev b =
     (sn b \<noteq> [] \<and> sn_lim b = update_sn_lim snmin snblock prev (sn b) \<and>
      keep b = select_keep (sn_lim b) (sn b))"

fun blocks_ok :: "real \<Rightarrow> real \<Rightarrow> real \<Rightarrow> block list \<Rightarrow> bool" where
  "blocks_ok snmin snblock prev [] = True"
| "blocks_ok snmin snblock prev (b # bs) =
     (block_ok snmin snblock prev b \<and> blocks_ok snmin snblock (sn_lim b) bs)"

text \<open>
  An instance of the two parameters for maps whose significant pixels are isolated: every
  pixel at or above the floor is a component of its own, and the subtraction removes the
  kept components completely.
\<close>

definition isolated_label :: "real \<Rightarrow> real list \<Rightarrow> real list" where
  "isolated_label snmin snmap = filter (\<lambda>s. snmin \<le> s) (map abs snmap)"

definition isolated_subtract :: "real \<Rightarrow> real list \<Rightarrow> nat list \<Rightarrow> real list" where
  "isolated_subtract snmin fmap kept =
     (let found = filter (\<lambda>j. snmin \<le> \<bar>fmap ! j\<bar>) [0..<length fmap]
      in map (\<lambda>j. if j \<in> set (map (\<lambda>k. found ! k) kept) then 0 else fmap ! j) [0..<length fmap])"

lemma block_loop_blocks_ok:
  "blocks_ok snmin snblock thr0 (block_loop label_sn subtract snmin snblock nrm nblock thr0 fmap)"
proof (induction nblock arbitrary: thr0 fmap)
  case 0
  show ?case by simp
next
  case (Suc n)
  show ?case
    using Suc.IH by (simp add: Let_def block_ok_def)
qed

lemma blocks_ok_nth:
  "blocks_ok snmin snblock thr0 bs \<Longrightarrow> i < length bs \<Longrightarrow>
   block_ok snmin snblock (if i = 0 then thr0 else sn_lim (bs ! (i - 1))) (bs ! i)"
proof (induction bs arbitrary: thr0 i)
  case Nil
  then show ?case by simp
next
  case (Cons b bs)
  show ?case
  proof (cases i)
    case 0
    with Cons.prems show ?thesis by simp
  next
    case (Suc j)
    with Cons.prems have "block_ok snmin snblock (if j = 0 then sn_lim b else sn_lim (bs ! (j - 1))) (bs ! j)"
      using Cons.IH[of "sn_lim b" j] by simp
    with Suc show ?thesis by (cases j) simp_all
  qed
qed

lemma three_sources_run:
  "find_srcs_blocks (isolated_label (7 / 2)) (isolated_subtract (7 / 2)) (7 / 2) (5 / 2) 10
      [100, 0, 30, 0, 5] [1, 1, 1, 1, 1] [1, 1, 1, 1, 1] =
   Some [\<lparr>sn_lim = 40, sn = [100, 30, 5], keep = [0]\<rparr>,
         \<lparr>sn_lim = 12, sn = [30, 5], keep = [0]\<rparr>,
         \<lparr>sn_lim = 7 / 2, sn = [5], keep = [0]\<rparr>]"
  by (simp add: find_srcs_blocks_def sn_lim_start_def numeral_nat Let_def update_sn_lim_def
      select_keep_def isolated_label_def isolated_subtract_def)

text \<open>
  C4, as stated: the cutoff starts at the global peak significance and is halved on every
  block. On a map with three isolated sources of significance 100, 30 and 5, with the
  defaults \<^verbatim>\<open>snmin=3.5\<close>, \<^verbatim>\<open>snblock=2.5\<close>, \<^verbatim>\<open>nblock=10\<close>, the cutoffs of the three blocks
  are 40, 12 and 3.5: the first is the start value 100 divided by 2.5, not halved, and
  the second is the strongest remaining component, 30, divided by 2.5.
\<close>

theorem find_srcs_cutoff_not_halved:
  "map_option (map sn_lim)
     (find_srcs_blocks (isolated_label (7 / 2)) (isolated_subtract (7 / 2)) (7 / 2) (5 / 2) 10
        [100, 0, 30, 0, 5] [1, 1, 1, 1, 1] [1, 1, 1, 1, 1]) = Some [40, 12, 7 / 2] \<and>
   sn_lim_start [100, 0, 30, 0, 5] [1, 1, 1, 1, 1] [1, 1, 1, 1, 1] = Some 100 \<and>
   (40 :: real) \<noteq> 100 / 2"
  by (simp add: three_sources_run) (simp add: sn_lim_start_def)

text \<open>
  C4, amended: in every block of a pass the cutoff is
  \<^verbatim>\<open>max(snmin, min(previous, strongest)/snblock)\<close>, where \<open>previous\<close> is the cutoff of the
  block before, or for the first block the global peak of \<open>|fmap/norm|\<close> over the pixels
  with a positive apodization, and \<open>strongest\<close> is the highest peak significance among
  the block's components; so it is never below \<^verbatim>\<open>snmin\<close>; and the components kept in
  the block are exactly those whose peak significance reaches the block's cutoff.
\<close>

theorem find_srcs_block_cutoff:
  assumes "find_srcs_blocks label_sn subtract snmin snblock nblock fmap nrm apod_map = Some bs"
    and "i < length bs"
  shows "sn_lim (bs ! i) =
           max snmin
             (min (if i = 0
                   then Max (set (map (\<lambda>(f, n, a). \<bar>f / n\<bar> * (if a > 0 then 1 else 0))
                                       (zip fmap (zip nrm apod_map))))
                   else sn_lim (bs ! (i - 1)))
                  (Max (set (sn (bs ! i)))) / snblock) \<and>
         snmin \<le> sn_lim (bs ! i) \<and>
         keep (bs ! i) = filter (\<lambda>k. sn_lim (bs ! i) \<le> sn (bs ! i) ! k) [0..<length (sn (bs ! i))]"
proof -
  from assms(1) obtain thr0 where
    t: "sn_lim_start fmap nrm apod_map = Some thr0" and
    bs: "bs = block_loop label_sn subtract snmin snblock nrm nblock thr0 fmap"
    by (auto simp: find_srcs_blocks_def split: option.splits)
  from t have thr0: "thr0 = Max (set (map (\<lambda>(f, n, a). \<bar>f / n\<bar> * (if a > 0 then 1 else 0))
                                       (zip fmap (zip nrm apod_map))))"
    by (simp add: sn_lim_start_def split: if_splits)
  have "blocks_ok snmin snblock thr0 bs"
    unfolding bs by (rule block_loop_blocks_ok)
  from blocks_ok_nth[OF this assms(2)]
  have ok: "block_ok snmin snblock (if i = 0 then thr0 else sn_lim (bs ! (i - 1))) (bs ! i)" .
  then have "snmin \<le> sn_lim (bs ! i)"
    by (simp add: block_ok_def update_sn_lim_def)
  with ok show ?thesis
    unfolding thr0 by (simp add: block_ok_def update_sn_lim_def select_keep_def)
qed

theorem find_srcs_block_cutoff_witness:
  "sn_lim ([\<lparr>sn_lim = 40, sn = [100, 30, 5], keep = [0]\<rparr>,
            \<lparr>sn_lim = 12, sn = [30, 5], keep = [0]\<rparr>,
            \<lparr>sn_lim = 7 / 2, sn = [5], keep = [0::nat]\<rparr>] ! 1) =
     max (7 / 2) (min 40 (Max (set [30, 5])) / (5 / 2))"
  using find_srcs_block_cutoff [OF three_sources_run, of 1] by simp

subsection \<open>\<^verbatim>\<open>merge_maps_onto\<close>: the weighted mean of overlapping maps\<close>

text \<open>
  A map is an array of pixels together with the place of its first pixel in the output
  geometry, which the source reads off the map's coordinate system
  (\<^verbatim>\<open>enmap.insert\<close> on the root's own maps, \<^verbatim>\<open>enmap.pixbox_of\<close> and
  \<^verbatim>\<open>enmap.insert_at\<close> for the maps received from the other tasks). The pixel array is a
  function on its index range; leading dimensions (\<^verbatim>\<open>pre\<close>) are left out, every component
  being treated alike. The pixels of the input maps are finite.
\<close>

type_synonym img = "nat \<Rightarrow> nat \<Rightarrow> real"

record tile =
  shape_y :: nat
  shape_x :: nat
  corner_y :: int
  corner_x :: int
  pixv :: img

text \<open>\<^verbatim>\<open>map[...,crop:-crop,crop:-crop]\<close>\<close>

definition crop_tile :: "nat \<Rightarrow> tile \<Rightarrow> tile" where
  "crop_tile crop t =
     \<lparr>shape_y = shape_y t - 2 * crop, shape_x = shape_x t - 2 * crop,
      corner_y = corner_y t + int crop, corner_x = corner_x t + int crop,
      pixv = (\<lambda>i j. pixv t (i + crop) (j + crop))\<rparr>"

text \<open>\<^verbatim>\<open>build_merge_weight\<close>: \<^verbatim>\<open>wy = 1-2*yoff/ny\<close> with \<^verbatim>\<open>yoff = |y - (ny-1)/2|\<close>, and
  \<^verbatim>\<open>weights = wy[:,None]*wx[None,:]\<close>.\<close>

definition merge_weight_1d :: "nat \<Rightarrow> nat \<Rightarrow> real" where
  "merge_weight_1d n i = 1 - 2 * \<bar>real i - (real n - 1) / 2\<bar> / real n"

definition build_merge_weight :: "nat \<Rightarrow> nat \<Rightarrow> img" where
  "build_merge_weight ny nx = (\<lambda>i j. merge_weight_1d ny i * merge_weight_1d nx j)"

text \<open>
  Modelled from the spec: \<^verbatim>\<open>enmap.insert\<close> and \<^verbatim>\<open>enmap.insert_at\<close> are not among the
  sources. The spec names them as ``bounding-box extraction/insertion at arbitrary pixel
  offsets with an additive combine operator'': the pixels of the map that fall inside the
  output are added to the output pixels they lie on, the others are dropped.
\<close>

definition covers :: "tile \<Rightarrow> nat \<Rightarrow> nat \<Rightarrow> bool" where
  "covers t y x =
     (corner_y t \<le> int y \<and> int y < corner_y t + int (shape_y t) \<and>
      corner_x t \<le> int x \<and> int x < corner_x t + int (shape_x t))"

definition insert_add :: "nat \<times> nat \<Rightarrow> img \<Rightarrow> tile \<Rightarrow> img \<Rightarrow> img" where
  "insert_add shape omap t vals =
     (\<lambda>y x. if y < fst shape \<and> x < snd shape \<and> covers t y x
            then omap y x + vals (nat (int y - corner_y t)) (nat (int x - corner_x t))
            else omap y x)"

text \<open>One map on the root: \<^verbatim>\<open>idiv = build_merge_weight(imap.shape)\<close>, then
  \<^verbatim>\<open>omap += imap*idiv\<close> and \<^verbatim>\<open>odiv += idiv\<close> where the map lies.\<close>

definition accumulate :: "nat \<times> nat \<Rightarrow> img \<times> img \<Rightarrow> tile \<Rightarrow> img \<times> img" where
  "accumulate shape acc imap =
     (let idiv = build_merge_weight (shape_y imap) (shape_x imap)
      in (insert_add shape (fst acc) imap (\<lambda>i j. pixv imap i j * idiv i j),
          insert_add shape (snd acc) imap idiv))"

text \<open>\<^verbatim>\<open>np.nan_to_num\<close>: NaN becomes zero and an infinity the largest finite number of the
  type, \<open>big\<close>.\<close>

fun nan_to_num :: "real \<Rightarrow> npfloat \<Rightarrow> real" where
  "nan_to_num big (Fin x) = x"
| "nan_to_num big NaN = 0"
| "nan_to_num big PInf = big"
| "nan_to_num big NInf = - big"

text \<open>
  The root task. \<open>maplists\<close> holds the map list of every task in the order of their
  ranks; the root takes its own from memory and the others' from the messages, in this
  order, every task having cropped its maps first. Then \<^verbatim>\<open>omap /= odiv\<close> and
  \<^verbatim>\<open>np.nan_to_num\<close>.
\<close>

definition merge_on_root :: "real \<Rightarrow> tile list list \<Rightarrow> nat \<times> nat \<Rightarrow> nat \<Rightarrow> img" where
  "merge_on_root big maplists shape crop =
     (let tiles = map (crop_tile crop) (concat maplists);
          acc = foldl (accumulate shape) ((\<lambda>y x. 0), (\<lambda>y x. 0)) tiles
      in (\<lambda>y x. nan_to_num big (fdiv (Fin (fst acc y x)) (Fin (snd acc y x)))))"

text \<open>
  The call on the task of rank \<open>rt\<close> (\<^verbatim>\<open>root\<close>). \<^verbatim>\<open>if dtype is None: dtype = maplist[0].dtype\<close>
  comes first and raises when no type is given and the root's own list is empty. The
  largest finite number of the type is \<open>big\<close>.
\<close>

definition merge_maps_onto ::
  "real \<Rightarrow> bool \<Rightarrow> nat \<Rightarrow> tile list list \<Rightarrow> nat \<times> nat \<Rightarrow> nat \<Rightarrow> py_exception + img" where
  "merge_maps_onto big dtype_given rt maplists shape crop =
     (if \<not> dtype_given \<and> maplists ! rt = [] then Inl IndexError
      else Inr (merge_on_root big maplists shape crop))"

text \<open>The claim's words: the weight a map gives a pixel of the output, the weight
  accumulated there, and the weight-weighted average of the maps that contribute.\<close>

definition weight_of :: "tile \<Rightarrow> nat \<Rightarrow> nat \<Rightarrow> real" where
  "weight_of t y x =
     (if covers t y x
      then build_merge_weight (shape_y t) (shape_x t) (nat (int y - corner_y t)) (nat (int x - corner_x t))
      else 0)"

definition value_of :: "tile \<Rightarrow> nat \<Rightarrow> nat \<Rightarrow> real" where
  "value_of t y x = pixv t (nat (int y - corner_y t)) (nat (int x - corner_x t))"

definition accumulated_weight :: "tile list \<Rightarrow> nat \<Rightarrow> nat \<Rightarrow> real" where
  "accumulated_weight ts y x = (\<Sum>t\<leftarrow>ts. weight_of t y x)"

definition weighted_average :: "tile list \<Rightarrow> nat \<Rightarrow> nat \<Rightarrow> real" where
  "weighted_average ts y x =
     (\<Sum>t\<leftarrow>ts. value_of t y x * weight_of t y x) / accumulated_weight ts y x"

text \<open>The largest finite number of the type \<^verbatim>\<open>float64\<close>, to the digits numpy prints.\<close>

definition float64_max :: real where
  "float64_max = 17976931348623157 * 10 ^ 292"

text \<open>Two maps of two by two pixels, the second one pixel to the right of the first.\<close>

definition tile_a :: tile where
  "tile_a = \<lparr>shape_y = 2, shape_x = 2, corner_y = 0, corner_x = 0, pixv = (\<lambda>i j. 4)\<rparr>"

definition tile_b :: tile where
  "tile_b = \<lparr>shape_y = 2, shape_x = 2, corner_y = 0, corner_x = 1, pixv = (\<lambda>i j. 8)\<rparr>"

lemma centred_offset_bound:
  "0 \<le> a \<Longrightarrow> a + 1 \<le> n \<Longrightarrow> 2 * \<bar>a - (n - 1) / 2\<bar> < (n::real)"
proof -
  assume h: "0 \<le> a" "a + 1 \<le> n"
  define d where "d = a - (n - 1) / 2"
  have "2 * d = 2 * a - n + 1" by (simp add: d_def field_simps)
  with h have "2 * d < n" "- (2 * d) < n" by linarith+
  then have "2 * \<bar>d\<bar> < n" by (simp add: abs_if)
  then show ?thesis by (simp add: d_def)
qed

lemma merge_weight_1d_pos: "i < n \<Longrightarrow> 0 < merge_weight_1d n i"
proof -
  assume "i < n"
  then have n: "0 < real n" by simp
  from \<open>i < n\<close> have "Suc i \<le> n" by simp
  then have "real (Suc i) \<le> real n" by (simp only: of_nat_le_iff)
  then have "real i + 1 \<le> real n" by simp
  then have "2 * \<bar>real i - (real n - 1) / 2\<bar> < real n"
    by (intro centred_offset_bound) simp_all
  then have "2 * \<bar>real i - (real n - 1) / 2\<bar> / real n < 1"
    using n by (simp add: divide_less_eq)
  then show ?thesis by (simp add: merge_weight_1d_def)
qed

lemma weight_of_pos: "covers t y x \<Longrightarrow> 0 < weight_of t y x"
  unfolding weight_of_def build_merge_weight_def covers_def
  by (auto intro!: mult_pos_pos merge_weight_1d_pos)

lemma weight_of_nonneg: "0 \<le> weight_of t y x"
  using weight_of_pos[of t y x] by (cases "covers t y x") (simp_all add: weight_of_def)

lemma weight_of_zero_iff: "weight_of t y x = 0 \<longleftrightarrow> \<not> covers t y x"
  using weight_of_pos[of t y x] by (cases "covers t y x") (simp_all add: weight_of_def)

lemma foldl_accumulate:
  "y < fst shape \<Longrightarrow> x < snd shape \<Longrightarrow>
   fst (foldl (accumulate shape) acc ts) y x
     = fst acc y x + (\<Sum>t\<leftarrow>ts. value_of t y x * weight_of t y x) \<and>
   snd (foldl (accumulate shape) acc ts) y x
     = snd acc y x + (\<Sum>t\<leftarrow>ts. weight_of t y x)"
proof (induction ts arbitrary: acc)
  case Nil
  show ?case by simp
next
  case (Cons t ts)
  have "fst (accumulate shape acc t) y x = fst acc y x + value_of t y x * weight_of t y x"
    using Cons.prems by (simp add: accumulate_def insert_add_def Let_def weight_of_def value_of_def)
  moreover have "snd (accumulate shape acc t) y x = snd acc y x + weight_of t y x"
    using Cons.prems by (simp add: accumulate_def insert_add_def Let_def weight_of_def)
  ultimately show ?case
    using Cons.IH[OF Cons.prems, of "accumulate shape acc t"] by simp
qed

lemma accumulated_weight_nonneg: "0 \<le> accumulated_weight ts y x"
  unfolding accumulated_weight_def by (induction ts) (simp_all add: weight_of_nonneg)

lemma accumulated_weight_zero:
  "accumulated_weight ts y x = 0 \<Longrightarrow> (\<Sum>t\<leftarrow>ts. value_of t y x * weight_of t y x) = 0"
proof (induction ts)
  case Nil
  show ?case by simp
next
  case (Cons t ts)
  have a: "0 \<le> weight_of t y x" by (rule weight_of_nonneg)
  have b: "0 \<le> accumulated_weight ts y x" by (rule accumulated_weight_nonneg)
  from Cons.prems have "weight_of t y x + accumulated_weight ts y x = 0"
    by (simp add: accumulated_weight_def)
  with a b have "weight_of t y x = 0" "accumulated_weight ts y x = 0" by linarith+
  with Cons.IH show ?case by simp
qed

lemma two_tiles_weights:
  "accumulated_weight (map (crop_tile 0) (concat [[tile_a], [tile_b]])) 0 3 = 0"
  "accumulated_weight (map (crop_tile 0) (concat [[tile_a], [tile_b]])) 0 1 = 1 / 2"
  "weighted_average (map (crop_tile 0) (concat [[tile_a], [tile_b]])) 0 1 = 6"
  by (simp_all add: accumulated_weight_def weighted_average_def weight_of_def value_of_def covers_def
      crop_tile_def tile_a_def tile_b_def build_merge_weight_def merge_weight_1d_def)

text \<open>
  C9. The root returns a map (given a type or a map of its own), and in it a pixel whose
  accumulated weight is zero is zero (no map lies on it: every weight of
  \<^verbatim>\<open>build_merge_weight\<close> is positive, so both sums are zero there and \<^verbatim>\<open>nan_to_num\<close>
  turns the NaN of 0/0 into 0), and a pixel with a positive accumulated weight holds the
  weight-weighted average of the maps lying on it. The accumulated weight is never
  negative.
\<close>

theorem merge_maps_onto_pixel:
  assumes "dtype_given \<or> maplists ! rt \<noteq> []" and "y < fst shape" and "x < snd shape"
  shows "\<exists>omap. merge_maps_onto big dtype_given rt maplists shape crop = Inr omap \<and>
         (accumulated_weight (map (crop_tile crop) (concat maplists)) y x = 0 \<longrightarrow>
            omap y x = 0) \<and>
         (0 < accumulated_weight (map (crop_tile crop) (concat maplists)) y x \<longrightarrow>
            omap y x = weighted_average (map (crop_tile crop) (concat maplists)) y x) \<and>
         0 \<le> accumulated_weight (map (crop_tile crop) (concat maplists)) y x"
proof -
  let ?ts = "map (crop_tile crop) (concat maplists)"
  let ?acc = "foldl (accumulate shape) ((\<lambda>y x. 0), (\<lambda>y x. 0)) ?ts"
  let ?omap = "merge_on_root big maplists shape crop"
  from foldl_accumulate[OF assms(2,3), of "((\<lambda>y x. 0), (\<lambda>y x. 0))" ?ts]
  have v: "fst ?acc y x = (\<Sum>t\<leftarrow>?ts. value_of t y x * weight_of t y x)"
    and w: "snd ?acc y x = accumulated_weight ?ts y x"
    by (simp_all add: accumulated_weight_def)
  have out: "?omap y x = nan_to_num big (fdiv (Fin (fst ?acc y x)) (Fin (snd ?acc y x)))"
    by (simp add: merge_on_root_def Let_def)
  have z: "accumulated_weight ?ts y x = 0 \<Longrightarrow> ?omap y x = 0"
    using accumulated_weight_zero[of ?ts y x] by (simp add: out v w inf_of_sign_def)
  have p: "0 < accumulated_weight ?ts y x \<Longrightarrow> ?omap y x = weighted_average ?ts y x"
    by (simp add: out v w weighted_average_def)
  have r: "merge_maps_onto big dtype_given rt maplists shape crop = Inr ?omap"
    using assms(1) by (auto simp: merge_maps_onto_def)
  show ?thesis using r z p accumulated_weight_nonneg[of ?ts y x] by blast
qed

theorem merge_maps_onto_pixel_witness:
  "\<exists>omap. merge_maps_onto float64_max False 0 [[tile_a], [tile_b]] (2, 4) 0 = Inr omap \<and>
     accumulated_weight (map (crop_tile 0) (concat [[tile_a], [tile_b]])) 0 3 = 0 \<and>
     omap 0 3 = 0 \<and>
     0 < accumulated_weight (map (crop_tile 0) (concat [[tile_a], [tile_b]])) 0 1 \<and>
     omap 0 1 = 6"
proof -
  have d: "False \<or> [[tile_a], [tile_b]] ! 0 \<noteq> []" by simp
  have h3: "(0::nat) < fst (2::nat, 4::nat)" "(3::nat) < snd (2::nat, 4::nat)"
    and h1: "(1::nat) < snd (2::nat, 4::nat)" by simp_all
  note t3 = merge_maps_onto_pixel [OF d h3, of float64_max 0]
  note t1 = merge_maps_onto_pixel [OF d h3(1) h1, of float64_max 0]
  have p: "0 < accumulated_weight (map (crop_tile 0) (concat [[tile_a], [tile_b]])) 0 1"
    by (simp only: two_tiles_weights(2))
  from t3 t1 p two_tiles_weights(1) two_tiles_weights(3) show ?thesis
    by (metis Inr_inject)
qed

subsection \<open>\<^verbatim>\<open>fit_src_amps\<close>: the early exits\<close>

text \<open>
  The function returns the tuple \<^verbatim>\<open>fit_inds, amp, icov, local_amps\<close>; the only exception
  its body raises by itself is that of \<^verbatim>\<open>np.linalg.solve\<close>.
\<close>

record fit_result =
  fit_inds :: "nat list"
  fit_amp :: "real list"
  fit_icov :: "real list list"
  fit_local_amps :: "real list"

text \<open>\<^verbatim>\<open>np.all(src_pix >= margin, 1) & np.all(src_pix < np.array(imap.shape[-2:])-margin, 1)\<close>\<close>

definition inside_margin :: "int \<Rightarrow> nat \<times> nat \<Rightarrow> real \<times> real \<Rightarrow> bool" where
  "inside_margin margin shape p =
     (real_of_int margin \<le> fst p \<and> real_of_int margin \<le> snd p \<and>
      fst p < real_of_int (int (fst shape) - margin) \<and>
      snd p < real_of_int (int (snd shape) - margin))"

text \<open>
  \<^verbatim>\<open>get_apod_holes\<close>:
  \<^verbatim>\<open>0.5*(1-np.cos(np.pi*np.minimum(1,ndimage.distance_transform_edt(div>0)/float(pixrad))))\<close>.
  The distance transform of scipy is the parameter \<open>edt\<close>. The division is numpy's, so
  \<^verbatim>\<open>pixrad = 0\<close> gives infinities and NaN, not an exception.
\<close>

definition get_apod_holes :: "(bool list \<Rightarrow> real list) \<Rightarrow> real list \<Rightarrow> int \<Rightarrow> npfloat list" where
  "get_apod_holes edt dv pixrad =
     map (\<lambda>d. fmul (Fin (1 / 2))
                (fsub (Fin 1)
                   (fcos (fmul (Fin pi)
                      (np_minimum (Fin 1) (fdiv (Fin d) (Fin (real_of_int pixrad))))))))
         (edt (map (\<lambda>v. 0 < v) dv))"

text \<open>\<^verbatim>\<open>np.sum(idiv*apod_map**2)\<close>\<close>

definition usable_weight :: "real list \<Rightarrow> npfloat list \<Rightarrow> npfloat" where
  "usable_weight idiv apod_map = np_sum (map2 (\<lambda>d a. fmul (Fin d) (fmul a a)) idiv apod_map)"

definition select_rows :: "nat list \<Rightarrow> 'a list \<Rightarrow> 'a list" where
  "select_rows ks xs = map (\<lambda>k. xs ! k) ks"

text \<open>
  The function, with the source positions already in pixel coordinates (\<open>src_pix\<close> is what
  \<^verbatim>\<open>imap.sky2pix\<close> returns). \<open>apod_window\<close> stands for \<^verbatim>\<open>(idiv*0+1).apod(apod)\<close> of the map
  library, and \<open>solve_passes\<close> for the body of the function after the second early exit
  (the beam profile, the \<^verbatim>\<open>npass\<close> passes that build and solve the linear system), which
  gives \<^verbatim>\<open>amp\<close>, \<^verbatim>\<open>icov\<close> and \<^verbatim>\<open>local_amps\<close> or raises. The last step prunes with the
  margin widened by \<^verbatim>\<open>apod_margin\<close>.
\<close>

definition fit_src_amps ::
  "(nat \<times> nat \<Rightarrow> int \<Rightarrow> real list) \<Rightarrow> (bool list \<Rightarrow> real list) \<Rightarrow>
   (npfloat list \<Rightarrow> nat list \<Rightarrow> py_exception + real list \<times> real list list \<times> real list) \<Rightarrow>
   nat \<times> nat \<Rightarrow> real list \<Rightarrow> (real \<times> real) list \<Rightarrow> int \<Rightarrow> int \<Rightarrow> py_exception + fit_result"
where
  "fit_src_amps apod_window edt solve_passes shape idiv src_pix apod apod_margin =
     (let margin = apod + apod_margin;
          inds = filter (\<lambda>i. inside_margin margin shape (src_pix ! i)) [0..<length src_pix];
          nsrc = length inds
      in if nsrc = 0
         then Inr \<lparr>fit_inds = inds, fit_amp = [], fit_icov = [], fit_local_amps = replicate nsrc 0\<rparr>
         else
           let apod_map = map2 fmul (map Fin (apod_window shape apod)) (get_apod_holes edt idiv apod)
           in if usable_weight idiv apod_map = Fin 0
              then Inr \<lparr>fit_inds = inds, fit_amp = replicate nsrc 0,
                        fit_icov = replicate nsrc (replicate nsrc 0),
                        fit_local_amps = replicate nsrc 0\<rparr>
              else
                (case solve_passes apod_map inds of
                   Inl e \<Rightarrow> Inl e
                 | Inr (amp, icov, local_amps) \<Rightarrow>
                     let margin2 = margin + apod_margin;
                         good = filter (\<lambda>k. inside_margin margin2 shape (src_pix ! (inds ! k)))
                                  [0..<nsrc]
                     in Inr \<lparr>fit_inds = select_rows good inds,
                              fit_amp = select_rows good amp,
                              fit_icov = map (select_rows good) (select_rows good icov),
                              fit_local_amps = select_rows good local_amps\<rparr>))"

text \<open>A region that was never hit: 60 by 60 pixels of weight zero, and two sources, one of
  them inside the margin of 25 pixels.\<close>

definition unhit_window :: "nat \<times> nat \<Rightarrow> int \<Rightarrow> real list" where
  "unhit_window shape apod = replicate (fst shape * snd shape) 1"

definition unhit_edt :: "bool list \<Rightarrow> real list" where
  "unhit_edt bs = replicate (length bs) 0"

lemma np_sum_zeros: "np_sum (replicate n (Fin 0)) = Fin 0"
  unfolding np_sum_def by (induction n) simp_all

lemma unhit_usable_weight:
  "usable_weight (replicate 3600 0)
     (map2 fmul (map Fin (unhit_window (60, 60) 15))
        (get_apod_holes unhit_edt (replicate 3600 0) 15)) = Fin 0"
proof -
  have "get_apod_holes unhit_edt (replicate 3600 0) 15 = replicate 3600 (Fin 0)"
    by (simp add: get_apod_holes_def unhit_edt_def np_minimum_def is_nan_def fsub_def)
  then show ?thesis
    by (simp add: usable_weight_def unhit_window_def zip_replicate np_sum_zeros)
qed

text \<open>
  C7. If the usable weighted area is empty, that is \<^verbatim>\<open>np.sum(idiv*apod_map**2) == 0\<close>, then
  \<^verbatim>\<open>fit_src_amps\<close> returns, without raising and without entering the passes, the indices
  of the sources that survive the margin test together with an amplitude vector, an
  inverse covariance matrix and local model amplitudes that are all zero, one entry for
  every surviving source.
\<close>

theorem fit_src_amps_empty_area:
  assumes "usable_weight idiv
             (map2 fmul (map Fin (apod_window shape apod)) (get_apod_holes edt idiv apod)) = Fin 0"
  shows "fit_src_amps apod_window edt solve_passes shape idiv src_pix apod apod_margin =
         (let inds = filter (\<lambda>i. inside_margin (apod + apod_margin) shape (src_pix ! i))
                       [0..<length src_pix];
              nsrc = length inds
          in Inr \<lparr>fit_inds = inds, fit_amp = replicate nsrc 0,
                   fit_icov = replicate nsrc (replicate nsrc 0),
                   fit_local_amps = replicate nsrc 0\<rparr>)"
  using assms by (simp add: fit_src_amps_def Let_def)

theorem fit_src_amps_empty_area_witness:
  "fit_src_amps unhit_window unhit_edt (\<lambda>a i. Inl LinAlgError) (60, 60)
      (replicate 3600 0) [(30, 30), (2, 30)] 15 10 =
   Inr \<lparr>fit_inds = [0], fit_amp = [0], fit_icov = [[0]], fit_local_amps = [0]\<rparr>"
  using fit_src_amps_empty_area [of "replicate 3600 0" unhit_window "(60, 60)" 15 unhit_edt
      "\<lambda>a i. Inl LinAlgError" "[(30, 30), (2, 30)]" 10, OF unhit_usable_weight]
  by (simp add: inside_margin_def)

subsection \<open>\<^verbatim>\<open>merge_duplicates\<close>: merging the entries of one source\<close>

text \<open>
  A catalog is a list of entries of the type \<^verbatim>\<open>cat_dtype\<close>: right ascension and
  declination, three-component amplitude, flux and their uncertainties, the pixel count
  and the integer status. All but the status are floats.
\<close>

type_synonym vec3 = "npfloat \<times> npfloat \<times> npfloat"

record src =
  ra :: npfloat
  dec :: npfloat
  amp :: vec3
  damp :: vec3
  flux :: vec3
  dflux :: vec3
  npix :: npfloat
  status :: int

text \<open>Python's \<^verbatim>\<open>%\<close> on floats takes the sign of the divisor.\<close>

definition pymod :: "real \<Rightarrow> real \<Rightarrow> real" where
  "pymod a p = a - p * of_int \<lfloor>a / p\<rfloor>"

text \<open>
  Modelled from the spec: \<^verbatim>\<open>utils.rewind\<close> is not among the sources. The spec keeps
  positions as right ascension and declination in radians, with a wraparound of the right
  ascension by \<open>2\<pi>\<close>; \<^verbatim>\<open>rewind(a, ref, period)\<close> moves an angle by whole periods into
  the interval from \<open>ref - period/2\<close> to \<open>ref + period/2\<close>, as
  \<^verbatim>\<open>ref + (a-ref+period/2)%period - period/2\<close>. On an infinity or NaN the remainder is NaN.
\<close>

definition rewind :: "real \<Rightarrow> real \<Rightarrow> real \<Rightarrow> real" where
  "rewind a ref period = ref + pymod (a - ref + period / 2) period - period / 2"

fun frewind :: "npfloat \<Rightarrow> npfloat" where
  "frewind (Fin a) = Fin (rewind a 0 (2 * pi))"
| "frewind a = NaN"

text \<open>
  The k-d tree of scipy: \<^verbatim>\<open>tree.query_ball_tree(other, r)\<close> gives, for every point of the
  tree, the indices of the points of the other tree at a Euclidean distance of at most
  \<open>r\<close>. The comparison is made on the squares; no point is within a negative \<open>r\<close>, and a
  comparison with NaN fails. The order of the indices in one answer is not specified by
  scipy; here it is ascending, and nothing below depends on it.
\<close>

type_synonym point = "npfloat \<times> npfloat"

definition dist2 :: "point \<Rightarrow> point \<Rightarrow> npfloat" where
  "dist2 p q =
     (let dx = fsub (fst p) (fst q); dy = fsub (snd p) (snd q)
      in fadd (fmul dx dx) (fmul dy dy))"

definition in_ball :: "real \<Rightarrow> point \<Rightarrow> point \<Rightarrow> bool" where
  "in_ball r p q = (0 \<le> r \<and> fle (dist2 p q) (Fin (r * r)))"

definition query_ball_tree :: "point list \<Rightarrow> point list \<Rightarrow> real \<Rightarrow> nat list list" where
  "query_ball_tree pts others r =
     map (\<lambda>p. filter (\<lambda>j. in_ball r p (others ! j)) [0..<length others]) pts"

text \<open>\<^verbatim>\<open>np.max\<close> and \<^verbatim>\<open>np.min\<close> of a non-empty array.\<close>

definition np_max :: "npfloat list \<Rightarrow> npfloat" where
  "np_max xs = foldl np_maximum (hd xs) (tl xs)"

definition np_min :: "npfloat list \<Rightarrow> npfloat" where
  "np_min xs = foldl np_minimum (hd xs) (tl xs)"

text \<open>\<^verbatim>\<open>def wmean(v, w): return (np.sum(v.T*w,-1)/np.sum(w,-1)).T\<close>, on a scalar and on a
  three-component field.\<close>

definition wmean :: "npfloat list \<Rightarrow> npfloat list \<Rightarrow> npfloat" where
  "wmean v w = fdiv (np_sum (map2 fmul v w)) (np_sum w)"

definition wmean3 :: "vec3 list \<Rightarrow> npfloat list \<Rightarrow> vec3" where
  "wmean3 v w =
     (wmean (map fst v) w, wmean (map (\<lambda>a. fst (snd a)) v) w, wmean (map (\<lambda>a. snd (snd a)) v) w)"

definition np_min3 :: "vec3 list \<Rightarrow> vec3" where
  "np_min3 v =
     (np_min (map fst v), np_min (map (\<lambda>a. fst (snd a)) v), np_min (map (\<lambda>a. snd (snd a)) v))"

text \<open>\<^verbatim>\<open>np.median\<close> of the integer status, stored back into the integer field: the mean of
  the two middle values is cut off towards zero.\<close>

definition median_int :: "int list \<Rightarrow> int" where
  "median_int xs =
     (let s = sort xs; n = length s
      in if odd n then s ! (n div 2)
         else (let t = s ! (n div 2 - 1) + s ! (n div 2)
               in if 0 \<le> t then t div 2 else - ((- t) div 2)))"

text \<open>
  The merged entry of the members \<open>gcat\<close>: every field is the mean weighted with
  \<^verbatim>\<open>gcat["damp"][:,0]**-2\<close>, then \<^verbatim>\<open>entry["damp"] = np.min(gcat["damp"],0)\<close> and
  \<^verbatim>\<open>entry["status"] = np.median(gcat["status"])\<close>. No other field is assigned again.
\<close>

definition merge_entry :: "src list \<Rightarrow> src" where
  "merge_entry gcat =
     (let w = map (\<lambda>e. fdiv (Fin 1) (fmul (fst (damp e)) (fst (damp e)))) gcat
      in \<lparr>ra = wmean (map ra gcat) w,
          dec = wmean (map dec gcat) w,
          amp = wmean3 (map amp gcat) w,
          damp = np_min3 (map damp gcat),
          flux = wmean3 (map flux gcat) w,
          dflux = wmean3 (map dflux gcat) w,
          npix = wmean (map npix gcat) w,
          status = median_int (map status gcat)\<rparr>)"

text \<open>
  One turn of the loop over the groups, on the state \<^verbatim>\<open>(done, ocat)\<close>: the members already
  done are removed; a group left empty is skipped; a single member is copied; otherwise the
  members within \<^verbatim>\<open>alim\<close> of the largest absolute amplitude are merged, and if there is
  none (\<^verbatim>\<open>len(good) == 0\<close>) the turn ends with the state unchanged.
\<close>

definition merge_group :: "src list \<Rightarrow> real \<Rightarrow> bool list \<times> src list \<Rightarrow> nat list \<Rightarrow> bool list \<times> src list"
where
  "merge_group cat alim st group0 =
     (let done = fst st; ocat = snd st;
          group = filter (\<lambda>j. \<not> done ! j) group0
      in if length group = 0 then st
         else if length group = 1
         then (done[group ! 0 := True], ocat @ [cat ! (group ! 0)])
         else
           let amps = map (\<lambda>j. fst (amp (cat ! j))) group;
               top = fmul (np_max (map fabs amps)) (Fin (1 - alim));
               good = filter (\<lambda>k. fle top (fabs (amps ! k))) [0..<length group]
           in if length good = 0 then st
              else (foldl (\<lambda>d j. d[j := True]) done group,
                    ocat @ [merge_entry (map (\<lambda>k. cat ! (group ! k)) good)]))"

text \<open>\<^verbatim>\<open>pos = np.array([cat.ra*np.cos(cat.dec),cat.dec]).T\<close>\<close>

definition cat_pos :: "src \<Rightarrow> point" where
  "cat_pos e = (fmul (ra e) (fcos (dec e)), dec e)"

text \<open>\<^verbatim>\<open>cat.ra = utils.rewind(cat.ra, 0)\<close>, the groups, the loop, and the function.\<close>

definition rewind_ra :: "src list \<Rightarrow> src list" where
  "rewind_ra cat = map (\<lambda>e. e\<lparr>ra := frewind (ra e)\<rparr>) cat"

definition dup_groups :: "src list \<Rightarrow> real \<Rightarrow> nat list list" where
  "dup_groups cat rlim = (let pos = map cat_pos cat in query_ball_tree pos pos rlim)"

text \<open>
  The loop over the groups. \<^verbatim>\<open>group = np.array(group)\<close> of an empty answer of the tree is
  an array of floats, and \<^verbatim>\<open>done[group]\<close> with it raises; the turns after an exception
  are not run. The function returns \<^verbatim>\<open>ocat\<close>.
\<close>

definition merge_turn ::
  "src list \<Rightarrow> real \<Rightarrow> bool list \<times> src list \<Rightarrow> nat list \<Rightarrow> py_exception + bool list \<times> src list"
where
  "merge_turn cat alim st group0 =
     (if group0 = [] then Inl IndexError else Inr (merge_group cat alim st group0))"

fun merge_groups ::
  "src list \<Rightarrow> real \<Rightarrow> bool list \<times> src list \<Rightarrow> nat list list \<Rightarrow> py_exception + bool list \<times> src list"
where
  "merge_groups cat alim st [] = Inr st"
| "merge_groups cat alim st (g # gs) =
     (case merge_turn cat alim st g of
        Inl e \<Rightarrow> Inl e
      | Inr st' \<Rightarrow> merge_groups cat alim st' gs)"

definition merge_loop :: "src list \<Rightarrow> real \<Rightarrow> nat list list \<Rightarrow> py_exception + src list" where
  "merge_loop cat alim groups =
     (case merge_groups cat alim (replicate (length cat) False, []) groups of
        Inl e \<Rightarrow> Inl e
      | Inr st \<Rightarrow> Inr (snd st))"

definition merge_duplicates :: "src list \<Rightarrow> real \<Rightarrow> real \<Rightarrow> py_exception + src list" where
  "merge_duplicates cat0 rlim alim =
     (if length cat0 = 0 then Inr cat0
      else
        let cat = rewind_ra cat0;
            groups = dup_groups cat rlim
        in merge_loop cat alim groups)"



text \<open>
  Examples. \<^verbatim>\<open>rlim\<close> is one arc minute by default. \<open>dup_a\<close> and \<open>dup_b\<close> are two
  detections of one source, the second with twice the uncertainty; \<open>src_at\<close> is a source at
  a given place; \<open>nan_src\<close> is a source whose amplitudes are NaN, and \<open>nan_at\<close> one at a
  given right ascension. \<open>nan_chain\<close> is a row of four entries on the equator, 0.4 radians
  from one to the next in the order 0, 3, 2, 1, the entries 1 and 2 with NaN amplitudes.
\<close>

definition arcmin :: real where "arcmin = pi / (180 * 60)"

definition dup_a :: src where
  "dup_a = \<lparr>ra = Fin 0, dec = Fin 0, amp = (Fin 10, Fin 0, Fin 0), damp = (Fin 1, Fin 1, Fin 1),
            flux = (Fin 20, Fin 0, Fin 0), dflux = (Fin 2, Fin 2, Fin 2), npix = Fin 9, status = 0\<rparr>"

definition dup_b :: src where
  "dup_b = \<lparr>ra = Fin 0, dec = Fin 0, amp = (Fin 10, Fin 0, Fin 0), damp = (Fin 2, Fin 2, Fin 2),
            flux = (Fin 20, Fin 0, Fin 0), dflux = (Fin 4, Fin 4, Fin 4), npix = Fin 9, status = 0\<rparr>"

definition src_at :: "real \<Rightarrow> real \<Rightarrow> src" where
  "src_at a d = \<lparr>ra = Fin a, dec = Fin d, amp = (Fin 10, Fin 0, Fin 0), damp = (Fin 1, Fin 1, Fin 1),
            flux = (Fin 20, Fin 0, Fin 0), dflux = (Fin 2, Fin 2, Fin 2), npix = Fin 9, status = 0\<rparr>"

definition nan_src :: src where
  "nan_src = (src_at 0 0)\<lparr>amp := (NaN, NaN, NaN)\<rparr>"

definition nan_at :: "real \<Rightarrow> src" where
  "nan_at a = (src_at a 0)\<lparr>amp := (NaN, NaN, NaN)\<rparr>"

definition nan_chain :: "src list" where
  "nan_chain = [src_at 0 0, nan_at (6 / 5), nan_at (4 / 5), src_at (2 / 5) 0]"

lemma rewind_0: "rewind 0 0 (2 * pi) = 0"
  by (simp add: rewind_def pymod_def)


lemma rewind_1: "rewind 1 0 (2 * pi) = 1"
proof -
  have "2 \<le> pi" using pi_ge_two by simp
  then have "0 \<le> (1 + pi) / (2 * pi)" "(1 + pi) / (2 * pi) < 1"
    by (simp_all add: field_simps)
  then have "\<lfloor>(1 + pi) / (2 * pi)\<rfloor> = 0" by linarith
  then show ?thesis by (simp add: rewind_def pymod_def)
qed

lemma floor_0: "0 \<le> x \<Longrightarrow> x < 1 \<Longrightarrow> \<lfloor>x :: real\<rfloor> = 0"
  by linarith

lemma rewind_small: "- pi \<le> a \<Longrightarrow> a < pi \<Longrightarrow> rewind a 0 (2 * pi) = a"
proof -
  assume a: "- pi \<le> a" "a < pi"
  have "0 \<le> (a + pi) / (2 * pi)" "(a + pi) / (2 * pi) < 1"
    using a by (simp_all add: field_simps)
  then have "\<lfloor>(a + pi) / (2 * pi)\<rfloor> = 0" by (rule floor_0)
  then show ?thesis by (simp add: rewind_def pymod_def)
qed

lemma arcmin_less_1: "0 \<le> arcmin" "arcmin * arcmin < 1"
proof -
  have p: "0 \<le> pi" "pi < 4" using pi_less_4 by simp_all
  then have a: "0 \<le> arcmin" "arcmin < 1" by (simp_all add: arcmin_def)
  then have "arcmin * arcmin < 1 * 1" by (intro mult_strict_mono) simp_all
  with a show "0 \<le> arcmin" "arcmin * arcmin < 1" by simp_all
qed


lemma merge_entry_damp: "damp (merge_entry gcat) = np_min3 (map damp gcat)"
  by (simp add: merge_entry_def Let_def)

text \<open>
  C6. The claim: the uncertainty of a merged entry is the minimum uncertainty among the
  contributing entries, for the amplitude uncertainty and for the flux uncertainty. For
  two detections at one place with the amplitude uncertainties 1 and 2 and the flux
  uncertainties 2 and 4 the merged entry has the amplitude uncertainty 1, the minimum, but
  the flux uncertainty 12/5, the mean weighted with 1 and 1/4, where the minimum is 2:
  only \<^verbatim>\<open>damp\<close> is assigned the minimum.
\<close>

theorem merge_duplicates_dflux_not_min:
  "map_sum id (map damp) (merge_duplicates [dup_a, dup_b] arcmin (1 / 4))
     = Inr [(Fin 1, Fin 1, Fin 1)] \<and>
   np_min3 (map damp [dup_a, dup_b]) = (Fin 1, Fin 1, Fin 1) \<and>
   map_sum id (map dflux) (merge_duplicates [dup_a, dup_b] arcmin (1 / 4))
     = Inr [(Fin (12 / 5), Fin (12 / 5), Fin (12 / 5))] \<and>
   np_min3 (map dflux [dup_a, dup_b]) = (Fin 2, Fin 2, Fin 2)"
  by (simp add: merge_duplicates_def rewind_ra_def dup_groups_def merge_loop_def merge_turn_def
      Let_def dup_a_def
      dup_b_def rewind_0 cat_pos_def query_ball_tree_def in_ball_def dist2_def fsub_def arcmin_def
      merge_group_def np_max_def np_maximum_def is_nan_def merge_entry_def wmean_def wmean3_def
      np_sum_def np_min3_def np_min_def np_minimum_def median_int_def)












lemma foldl_np_maximum_NaN: "foldl np_maximum NaN xs = NaN"
  by (induction xs) (simp_all add: np_maximum_def is_nan_def)

lemma np_max_all_NaN:
  assumes "xs \<noteq> []" and "\<And>a. a \<in> set xs \<Longrightarrow> a = NaN"
  shows "np_max xs = NaN"
proof (cases xs)
  case Nil
  with assms(1) show ?thesis by simp
next
  case (Cons a list)
  with assms(2)[of a] have "a = NaN" by simp
  with Cons show ?thesis by (simp add: np_max_def foldl_np_maximum_NaN)
qed

lemma merge_group_all_NaN:
  assumes und: "\<And>j. j \<in> set g \<Longrightarrow> \<not> fst st ! j"
    and two: "2 \<le> length g"
    and nan: "\<And>j. j \<in> set g \<Longrightarrow> fst (amp (cat ! j)) = NaN"
  shows "merge_group cat alim st g = st"
proof -
  have f: "filter (\<lambda>j. \<not> fst st ! j) g = g"
    using und by (simp add: filter_id_conv)
  let ?amps = "map (\<lambda>j. fst (amp (cat ! j))) g"
  have "g \<noteq> []" using two by auto
  then have "np_max (map fabs ?amps) = NaN"
    using nan by (intro np_max_all_NaN) auto
  then have "filter (\<lambda>k. fle (fmul (np_max (map fabs ?amps)) (Fin (1 - alim))) (fabs (?amps ! k)))
               [0..<length g] = []"
    by simp
  then show ?thesis
    using two by (simp add: merge_group_def Let_def f)
qed

lemma foldl_update_length: "length (foldl (\<lambda>d j. d[j := True]) dn g) = length dn"
  by (induction g arbitrary: dn) simp_all

lemma foldl_update_other: "j \<notin> set g \<Longrightarrow> foldl (\<lambda>d j. d[j := True]) dn g ! j = dn ! j"
  by (induction g arbitrary: dn) auto

lemma merge_group_other:
  assumes "j \<notin> set g"
  shows "fst (merge_group cat alim st g) ! j = fst st ! j"
proof -
  let ?grp = "filter (\<lambda>j. \<not> fst st ! j) g"
  have a: "j \<notin> set ?grp" using assms by simp
  have b: "length ?grp = 1 \<Longrightarrow> ?grp ! 0 \<noteq> j"
  proof
    assume "length ?grp = 1" "?grp ! 0 = j"
    then have "j \<in> set ?grp" by (metis nth_mem zero_less_one)
    with a show False by simp
  qed
  show ?thesis
    using b foldl_update_other[OF a, of "fst st"]
    by (auto simp: merge_group_def Let_def)
qed

lemma merge_groups_skip:
  assumes inD: "\<And>i. i \<in> set ks \<Longrightarrow> i \<in> D \<Longrightarrow>
                  set (groups ! i) \<subseteq> D \<and> 2 \<le> length (groups ! i)"
    and outD: "\<And>i. i \<in> set ks \<Longrightarrow> i \<notin> D \<Longrightarrow> set (groups ! i) \<inter> D = {}"
    and nan: "\<And>j. j \<in> D \<Longrightarrow> fst (amp (cat ! j)) = NaN"
    and und: "\<And>j. j \<in> D \<Longrightarrow> \<not> fst st ! j"
  shows "merge_groups cat alim st (map (\<lambda>i. groups ! i) ks)
       = merge_groups cat alim st (map (\<lambda>i. groups ! i) (filter (\<lambda>i. i \<notin> D) ks))"
  using inD outD und
proof (induction ks arbitrary: st)
  case Nil
  show ?case by simp
next
  case (Cons k ks)
  show ?case
  proof (cases "k \<in> D")
    case True
    from Cons.prems(1)[of k] True
    have g: "set (groups ! k) \<subseteq> D" "2 \<le> length (groups ! k)" by simp_all
    have "merge_group cat alim st (groups ! k) = st"
    proof (rule merge_group_all_NaN)
      show "\<And>j. j \<in> set (groups ! k) \<Longrightarrow> \<not> fst st ! j" using g(1) Cons.prems(3) by auto
      show "2 \<le> length (groups ! k)" by (rule g(2))
      show "\<And>j. j \<in> set (groups ! k) \<Longrightarrow> fst (amp (cat ! j)) = NaN" using g(1) nan by auto
    qed
    moreover have "groups ! k \<noteq> []" using g(2) by auto
    ultimately have turn: "merge_turn cat alim st (groups ! k) = Inr st"
      by (simp add: merge_turn_def)
    have "merge_groups cat alim st (map (\<lambda>i. groups ! i) ks)
       = merge_groups cat alim st (map (\<lambda>i. groups ! i) (filter (\<lambda>i. i \<notin> D) ks))"
      using Cons.prems by (intro Cons.IH) simp_all
    then show ?thesis using True by (simp add: turn)
  next
    case False
    show ?thesis
    proof (cases "merge_turn cat alim st (groups ! k)")
      case (Inl e)
      then show ?thesis using False by simp
    next
      case (Inr st')
      then have st': "st' = merge_group cat alim st (groups ! k)"
        by (simp add: merge_turn_def split: if_splits)
      from Cons.prems(2)[of k] False have dis: "set (groups ! k) \<inter> D = {}" by simp
      have und': "\<And>j. j \<in> D \<Longrightarrow> \<not> fst st' ! j"
      proof -
        fix j assume j: "j \<in> D"
        with dis have "j \<notin> set (groups ! k)" by auto
        from merge_group_other[OF this] Cons.prems(3)[OF j] show "\<not> fst st' ! j"
          by (simp add: st')
      qed
      have "merge_groups cat alim st' (map (\<lambda>i. groups ! i) ks)
         = merge_groups cat alim st' (map (\<lambda>i. groups ! i) (filter (\<lambda>i. i \<notin> D) ks))"
        using Cons.prems(1,2) und' by (intro Cons.IH) simp_all
      then show ?thesis using False by (simp add: Inr)
    qed
  qed
qed

lemma nan_pair_groups:
  "dup_groups (rewind_ra [nan_src, nan_src, src_at 1 0]) arcmin = [[0, 1], [0, 1], [2]]"
  using arcmin_less_1
  by (simp add: dup_groups_def rewind_ra_def nan_src_def src_at_def rewind_0 rewind_1 cat_pos_def
      query_ball_tree_def in_ball_def dist2_def fsub_def Let_def)

lemma nan_chain_rewind: "rewind_ra nan_chain = nan_chain"
proof -
  have p: "2 \<le> pi" using pi_ge_two by simp
  have "rewind 0 0 (2 * pi) = 0" by (rule rewind_small) simp_all
  moreover have "rewind (6 / 5) 0 (2 * pi) = 6 / 5" using p by (intro rewind_small) simp_all
  moreover have "rewind (4 / 5) 0 (2 * pi) = 4 / 5" using p by (intro rewind_small) simp_all
  moreover have "rewind (2 / 5) 0 (2 * pi) = 2 / 5" using p by (intro rewind_small) simp_all
  ultimately show ?thesis
    by (simp add: rewind_ra_def nan_chain_def nan_at_def src_at_def)
qed

lemma nan_chain_groups:
  "dup_groups nan_chain (1 / 2) = [[0, 3], [1, 2], [1, 2, 3], [0, 2, 3]]"
  by (simp add: dup_groups_def nan_chain_def nan_at_def src_at_def cat_pos_def
      query_ball_tree_def in_ball_def dist2_def fsub_def Let_def upt_conv_Cons)

lemma nan_chain_merged:
  "merge_entry [src_at 0 0, src_at (2 / 5) 0] = src_at (1 / 5) 0"
  by (simp add: merge_entry_def src_at_def wmean_def wmean3_def np_sum_def np_min3_def np_min_def
      np_minimum_def is_nan_def median_int_def Let_def)

lemma merge_group_length: "length (snd (merge_group cat alim st g)) \<le> Suc (length (snd st))"
  by (simp add: merge_group_def Let_def)

lemma merge_groups_length:
  "merge_groups cat alim st gs = Inr st' \<Longrightarrow> length (snd st') \<le> length (snd st) + length gs"
proof (induction gs arbitrary: st)
  case Nil
  then show ?case by simp
next
  case (Cons g gs)
  show ?case
  proof (cases "merge_turn cat alim st g")
    case (Inl e)
    with Cons.prems show ?thesis by simp
  next
    case (Inr st1)
    then have st1: "st1 = merge_group cat alim st g"
      by (simp add: merge_turn_def split: if_splits)
    from Cons.prems Inr have "merge_groups cat alim st1 gs = Inr st'" by simp
    from Cons.IH[OF this] have "length (snd st') \<le> length (snd st1) + length gs" .
    moreover have "length (snd st1) \<le> Suc (length (snd st))"
      unfolding st1 by (rule merge_group_length)
    ultimately show ?thesis by simp
  qed
qed

lemma merge_loop_length: "merge_loop cat alim gs = Inr ocat \<Longrightarrow> length ocat \<le> length gs"
proof -
  assume a: "merge_loop cat alim gs = Inr ocat"
  then obtain st' where s: "merge_groups cat alim (replicate (length cat) False, []) gs = Inr st'"
    and o: "ocat = snd st'"
    by (auto simp: merge_loop_def split: sum.splits)
  from merge_groups_length[OF s] show ?thesis by (simp add: o)
qed

lemma length_filter_outside:
  assumes "\<forall>i \<in> D. i < n"
  shows "length (filter (\<lambda>i. i \<notin> D) [0..<n]) = n - card D"
proof -
  have sub: "D \<subseteq> {..<n}" using assms by auto
  then have fin: "finite D" by (rule finite_subset) simp
  have "length (filter (\<lambda>i. i \<notin> D) [0..<n]) = card (set (filter (\<lambda>i. i \<notin> D) [0..<n]))"
    by (rule distinct_card[symmetric]) simp
  also have "set (filter (\<lambda>i. i \<notin> D) [0..<n]) = {..<n} - D" by auto
  also have "card ({..<n} - D) = n - card D"
    using sub fin by (simp add: card_Diff_subset)
  finally show ?thesis .
qed

text \<open>
  C10, as stated: if every amplitude in a duplicate group of two or more entries is NaN, the
  whole group is dropped from the returned catalog, neither merged nor kept. With a match
  radius of 0.5 radians the group of entry 1 of \<open>nan_chain\<close> is the entries 1 and 2, both
  with NaN amplitudes. The turn for this group is skipped and marks nothing done; the
  turn for the group of entry 2 (the entries 1, 2 and 3, of which 3 is done by then) is
  skipped in the same way; the turn for the group of entry 3 finds entry 2 as the only
  member not done and copies it. Entry 2 is kept in the returned catalog.
\<close>

theorem merge_duplicates_keeps_NaN_member:
  "dup_groups (rewind_ra nan_chain) (1 / 2) ! 1 = [1, 2] \<and>
   fst (amp (nan_chain ! 1)) = NaN \<and> fst (amp (nan_chain ! 2)) = NaN \<and>
   merge_duplicates nan_chain (1 / 2) (1 / 4) = Inr [src_at (1 / 5) 0, nan_chain ! 2]"
proof -
  have t0: "merge_group nan_chain (1 / 4) ([False, False, False, False], []) [0, 3]
      = ([True, False, False, True], [src_at (1 / 5) 0])"
    by (simp add: merge_group_def Let_def nan_chain_def src_at_def np_max_def np_maximum_def
        is_nan_def upt_conv_Cons nan_chain_merged[unfolded src_at_def])
  have t1: "merge_group nan_chain (1 / 4) ([True, False, False, True], [src_at (1 / 5) 0]) [1, 2]
      = ([True, False, False, True], [src_at (1 / 5) 0])"
    by (simp add: merge_group_def Let_def nan_chain_def nan_at_def np_max_def np_maximum_def
        is_nan_def upt_conv_Cons)
  have t2: "merge_group nan_chain (1 / 4) ([True, False, False, True], [src_at (1 / 5) 0]) [1, 2, 3]
      = ([True, False, False, True], [src_at (1 / 5) 0])"
    by (simp add: merge_group_def Let_def nan_chain_def nan_at_def np_max_def np_maximum_def
        is_nan_def upt_conv_Cons)
  have t3: "merge_group nan_chain (1 / 4) ([True, False, False, True], [src_at (1 / 5) 0]) [0, 2, 3]
      = ([True, False, True, True], [src_at (1 / 5) 0, nan_chain ! 2])"
    by (simp add: merge_group_def Let_def nan_chain_def)
  have len: "length nan_chain = 4" by (simp add: nan_chain_def)
  have rep: "replicate 4 False = [False, False, False, False]" by (simp add: numeral_nat)
  have m: "merge_duplicates nan_chain (1 / 2) (1 / 4) = Inr [src_at (1 / 5) 0, nan_chain ! 2]"
    using t0 t1 t2 t3
    by (simp add: merge_duplicates_def Let_def nan_chain_rewind nan_chain_groups merge_loop_def
        merge_turn_def len rep)
  show ?thesis
    by (simp add: m nan_chain_rewind nan_chain_groups) (simp add: nan_chain_def nan_at_def)
qed

text \<open>
  C10, amended. Let \<open>D\<close> be a set of entries whose first amplitudes are all NaN and which
  is made of whole duplicate groups of two or more entries (the group of an entry of \<open>D\<close>
  lies in \<open>D\<close> and has at least two members, the group of any other entry contains none
  of \<open>D\<close>). Then the result of \<^verbatim>\<open>merge_duplicates\<close> is that of the loop over the groups
  of the other entries alone: in the turns for the groups of \<open>D\<close> no entry is selected
  (\<^verbatim>\<open>good\<close> is empty), nothing is appended to the output and nothing is marked done, so
  the entries of \<open>D\<close> are neither merged nor kept, and a catalog that is returned has at
  most as many entries as there are entries outside \<open>D\<close>. In the witness two NaN
  detections of one source and one more source go in, and the one source comes out.
\<close>

theorem merge_duplicates_drops_NaN_group:
  assumes "cat \<noteq> []"
    and "\<forall>i \<in> D. i < length cat \<and> fst (amp (cat ! i)) = NaN"
    and "\<forall>i < length cat.
           (i \<in> D \<longrightarrow> set (dup_groups (rewind_ra cat) rlim ! i) \<subseteq> D \<and>
                       2 \<le> length (dup_groups (rewind_ra cat) rlim ! i)) \<and>
           (i \<notin> D \<longrightarrow> set (dup_groups (rewind_ra cat) rlim ! i) \<inter> D = {})"
  shows "merge_duplicates cat rlim alim =
           merge_loop (rewind_ra cat) alim
             (map (\<lambda>i. dup_groups (rewind_ra cat) rlim ! i)
                  (filter (\<lambda>i. i \<notin> D) [0..<length cat])) \<and>
         (\<forall>ocat. merge_duplicates cat rlim alim = Inr ocat \<longrightarrow>
                 length ocat \<le> length cat - card D)"
proof -
  let ?c = "rewind_ra cat"
  let ?g = "dup_groups ?c rlim"
  let ?rest = "map (\<lambda>i. ?g ! i) (filter (\<lambda>i. i \<notin> D) [0..<length cat])"
  have len: "length ?g = length cat"
    by (simp add: dup_groups_def query_ball_tree_def rewind_ra_def Let_def)
  have amp_c: "\<And>j. j < length cat \<Longrightarrow> amp (?c ! j) = amp (cat ! j)"
    by (simp add: rewind_ra_def)
  have g: "?g = map (\<lambda>i. ?g ! i) [0..<length cat]"
    using len by (metis map_nth)
  have "merge_duplicates cat rlim alim = merge_loop ?c alim ?g"
    using assms(1) by (simp add: merge_duplicates_def Let_def)
  also have "\<dots> = merge_loop ?c alim (map (\<lambda>i. ?g ! i) [0..<length cat])"
    using g by simp
  also have "\<dots> = merge_loop ?c alim ?rest"
    unfolding merge_loop_def
  proof (rule arg_cong[where f = "case_sum Inl (\<lambda>st. Inr (snd st))"],
      rule merge_groups_skip[where D = D])
    show "\<And>i. i \<in> set [0..<length cat] \<Longrightarrow> i \<in> D \<Longrightarrow> set (?g ! i) \<subseteq> D \<and> 2 \<le> length (?g ! i)"
      using assms(3) by simp
    show "\<And>i. i \<in> set [0..<length cat] \<Longrightarrow> i \<notin> D \<Longrightarrow> set (?g ! i) \<inter> D = {}"
      using assms(3) by simp
    show "\<And>j. j \<in> D \<Longrightarrow> fst (amp (?c ! j)) = NaN"
      using assms(2) amp_c by simp
    show "\<And>j. j \<in> D \<Longrightarrow> \<not> fst (replicate (length ?c) False, []) ! j"
      using assms(2) by (simp add: rewind_ra_def)
  qed
  finally have eq: "merge_duplicates cat rlim alim = merge_loop ?c alim ?rest" .
  have "length ?rest = length cat - card D"
    using assms(2) by (simp add: length_filter_outside)
  then have "\<And>ocat. merge_loop ?c alim ?rest = Inr ocat \<Longrightarrow> length ocat \<le> length cat - card D"
    using merge_loop_length[of ?c alim ?rest] by simp
  with eq show ?thesis by simp
qed

theorem merge_duplicates_drops_NaN_group_witness:
  "merge_duplicates [nan_src, nan_src, src_at 1 0] arcmin (1 / 4) = Inr [src_at 1 0]"
proof -
  have a: "[nan_src, nan_src, src_at 1 0] \<noteq> []" by simp
  have b: "\<forall>i \<in> {0, 1}. i < length [nan_src, nan_src, src_at 1 0] \<and>
             fst (amp ([nan_src, nan_src, src_at 1 0] ! i)) = NaN"
    by (simp add: nan_src_def)
  have c: "\<forall>i < length [nan_src, nan_src, src_at 1 0].
      (i \<in> {0, 1} \<longrightarrow>
         set (dup_groups (rewind_ra [nan_src, nan_src, src_at 1 0]) arcmin ! i) \<subseteq> {0, 1} \<and>
         2 \<le> length (dup_groups (rewind_ra [nan_src, nan_src, src_at 1 0]) arcmin ! i)) \<and>
      (i \<notin> {0, 1} \<longrightarrow>
         set (dup_groups (rewind_ra [nan_src, nan_src, src_at 1 0]) arcmin ! i) \<inter> {0, 1} = {})"
    unfolding nan_pair_groups by (simp add: less_Suc_eq all_conj_distrib numeral_nat)
  from merge_duplicates_drops_NaN_group [OF a b c, of "1 / 4"]
  have "merge_duplicates [nan_src, nan_src, src_at 1 0] arcmin (1 / 4) =
          merge_loop (rewind_ra [nan_src, nan_src, src_at 1 0]) (1 / 4)
            (map (\<lambda>i. dup_groups (rewind_ra [nan_src, nan_src, src_at 1 0]) arcmin ! i)
                 (filter (\<lambda>i. i \<notin> {0, 1}) [0..<length [nan_src, nan_src, src_at 1 0]]))"
    by (rule conjunct1)
  then show ?thesis
    unfolding nan_pair_groups
    by (simp add: merge_loop_def merge_turn_def merge_group_def Let_def rewind_ra_def
        src_at_def rewind_1)
qed

subsection \<open>\<^verbatim>\<open>group_independent\<close>: correlated neighbours and independent groups\<close>

text \<open>
  A position is the pair (declination, right ascension) of one row of \<^verbatim>\<open>pos\<close>.
  \<^verbatim>\<open>pos[:,1] *= np.cos(pos[:,0])\<close>: the right ascension is scaled with the cosine of the
  point's own declination.
\<close>

definition scale_ra :: "point \<Rightarrow> point" where
  "scale_ra p = (fst p, fmul (snd p) (fcos (fst p)))"

text \<open>
  The correlated-neighbour sets: the positions are rewound, the two copies shifted by
  \<open>-2\<pi>\<close> and \<open>+2\<pi>\<close> in right ascension are appended, all are scaled, every point of the
  tree of the \<open>n\<close> positions is matched against the tree of the \<open>3n\<close> wrapped ones, and the
  indices are reduced modulo \<open>n\<close> into a set
  (\<^verbatim>\<open>[set([i%n for i in g]) for g in corr_groups]\<close>), kept as an ascending list.
\<close>

definition corr_groups_of :: "point list \<Rightarrow> real \<Rightarrow> nat list list" where
  "corr_groups_of pos0 corrlen =
     (let pos = map (\<lambda>p. (frewind (fst p), frewind (snd p))) pos0;
          n = length pos;
          wpos1 = map (\<lambda>p. (fst p, fsub (snd p) (Fin (2 * pi)))) pos;
          wpos2 = map (\<lambda>p. (fst p, fadd (snd p) (Fin (2 * pi)))) pos;
          wpos = pos @ wpos1 @ wpos2
      in map (\<lambda>g. sort (remdups (map (\<lambda>i. i mod n) g)))
           (query_ball_tree (map scale_ra pos) (map scale_ra wpos) corrlen))"

text \<open>
  \<^verbatim>\<open>candidates.pop()\<close> removes and returns an arbitrary element of the set. Which one is the
  parameter \<open>pick\<close>; an answer outside the set is replaced by the first element, so that
  every function is a way of popping.
\<close>

definition pop :: "(nat list \<Rightarrow> nat) \<Rightarrow> nat list \<Rightarrow> nat" where
  "pop pick cs = (if pick cs \<in> set cs then pick cs else hd cs)"

text \<open>The inner loop: pop an element, remove the points correlated with it from the
  candidates, append it to the group.\<close>

function pick_group :: "(nat list \<Rightarrow> nat) \<Rightarrow> nat list list \<Rightarrow> nat list \<Rightarrow> nat list" where
  "pick_group pick cg candidates =
     (if candidates = [] then []
      else
        let elem = pop pick candidates;
            rest = filter (\<lambda>c. c \<noteq> elem \<and> c \<notin> set (cg ! elem)) candidates
        in elem # pick_group pick cg rest)"
  by pat_completeness auto

lemma pop_mem: "cs \<noteq> [] \<Longrightarrow> pop pick cs \<in> set cs"
  by (simp add: pop_def)

termination pick_group
proof (relation "measure (\<lambda>(pick, cg, cs). length cs)")
  show "wf (measure (\<lambda>(pick, cg, cs). length cs))" by simp
next
  fix pick :: "nat list \<Rightarrow> nat" and cg :: "nat list list" and candidates :: "nat list"
    and elem rest
  assume ne: "candidates \<noteq> []" and e: "elem = pop pick candidates"
    and r: "rest = filter (\<lambda>c. c \<noteq> elem \<and> c \<notin> set (cg ! elem)) candidates"
  from ne e have "elem \<in> set candidates" by (simp add: pop_mem)
  then have "length rest < length candidates"
    unfolding r by (intro length_filter_less[of elem]) simp_all
  then show "((pick, cg, rest), (pick, cg, candidates)) \<in> measure (\<lambda>(pick, cg, cs). length cs)"
    by simp
qed

declare pick_group.simps [simp del]

lemma pick_group_nonempty: "cs \<noteq> [] \<Longrightarrow> pop pick cs \<in> set (pick_group pick cg cs)"
  by (subst pick_group.simps) (simp add: Let_def)

text \<open>The outer loop: a group is picked from what remains, its members are removed from the
  remainder, and the group is appended in ascending order (\<^verbatim>\<open>sorted(group)\<close>).\<close>

function indep_loop :: "(nat list \<Rightarrow> nat) \<Rightarrow> nat list list \<Rightarrow> nat list \<Rightarrow> nat list list" where
  "indep_loop pick cg remainder =
     (if remainder = [] then []
      else
        let group = pick_group pick cg remainder
        in sort group # indep_loop pick cg (filter (\<lambda>r. r \<notin> set group) remainder))"
  by pat_completeness auto

termination indep_loop
proof (relation "measure (\<lambda>(pick, cg, rs). length rs)")
  show "wf (measure (\<lambda>(pick, cg, rs). length rs))" by simp
next
  fix pick :: "nat list \<Rightarrow> nat" and cg :: "nat list list" and remainder :: "nat list"
    and group
  assume ne: "remainder \<noteq> []" and g: "group = pick_group pick cg remainder"
  have "pop pick remainder \<in> set remainder" using ne by (rule pop_mem)
  moreover have "pop pick remainder \<in> set group"
    unfolding g using ne by (rule pick_group_nonempty)
  ultimately have "length (filter (\<lambda>r. r \<notin> set group) remainder) < length remainder"
    by (intro length_filter_less[of "pop pick remainder"]) simp_all
  then show "((pick, cg, filter (\<lambda>r. r \<notin> set group) remainder), (pick, cg, remainder))
      \<in> measure (\<lambda>(pick, cg, rs). length rs)"
    by simp
qed

declare indep_loop.simps [simp del]

text \<open>The function returns \<^verbatim>\<open>indep_groups, corr_groups\<close>.\<close>

definition group_independent ::
  "(nat list \<Rightarrow> nat) \<Rightarrow> point list \<Rightarrow> real \<Rightarrow> nat list list \<times> nat list list" where
  "group_independent pick pos corrlen =
     (let corr_groups = corr_groups_of pos corrlen
      in (indep_loop pick corr_groups [0..<length pos], corr_groups))"

text \<open>CPython pops the least element of the set \<open>{0, 1}\<close>.\<close>

definition least :: "nat list \<Rightarrow> nat" where
  "least cs = Min (set cs)"

lemma pick_group_subset: "set (pick_group pick cg cs) \<subseteq> set cs"
proof (induction pick cg cs rule: pick_group.induct)
  case (1 pick cg cs)
  show ?case
  proof (cases "cs = []")
    case True
    have "pick_group pick cg cs = []"
      using True by (subst pick_group.simps) simp
    then show ?thesis by simp
  next
    case False
    let ?e = "pop pick cs"
    let ?r = "filter (\<lambda>c. c \<noteq> ?e \<and> c \<notin> set (cg ! ?e)) cs"
    have "set (pick_group pick cg ?r) \<subseteq> set ?r"
      using "1.IH"[OF False refl refl] .
    moreover have "pick_group pick cg cs = ?e # pick_group pick cg ?r"
      using False by (subst pick_group.simps) (simp add: Let_def)
    ultimately show ?thesis using pop_mem[OF False, of pick] by auto
  qed
qed

lemma pick_group_later_free:
  "sorted_wrt (\<lambda>a b. b \<noteq> a \<and> b \<notin> set (cg ! a)) (pick_group pick cg cs)"
proof (induction pick cg cs rule: pick_group.induct)
  case (1 pick cg cs)
  show ?case
  proof (cases "cs = []")
    case True
    have "pick_group pick cg cs = []"
      using True by (subst pick_group.simps) simp
    then show ?thesis by simp
  next
    case False
    define e where "e = pop pick cs"
    define r where "r = filter (\<lambda>c. c \<noteq> e \<and> c \<notin> set (cg ! e)) cs"
    have eq: "pick_group pick cg cs = e # pick_group pick cg r"
      using False unfolding e_def r_def by (subst pick_group.simps) (simp add: Let_def)
    have "set (pick_group pick cg r) \<subseteq> set r" by (rule pick_group_subset)
    then have free: "\<forall>b \<in> set (pick_group pick cg r). b \<noteq> e \<and> b \<notin> set (cg ! e)"
      unfolding r_def by auto
    have ih: "sorted_wrt (\<lambda>a b. b \<noteq> a \<and> b \<notin> set (cg ! a)) (pick_group pick cg r)"
      using "1.IH"[OF False e_def r_def] .
    show ?thesis
      unfolding eq using free ih by simp
  qed
qed

lemma sorted_wrt_two:
  "sorted_wrt P xs \<Longrightarrow> x \<in> set xs \<Longrightarrow> y \<in> set xs \<Longrightarrow> x \<noteq> y \<Longrightarrow> P x y \<or> P y x"
  by (induction xs) auto

lemma indep_loop_groups:
  "g \<in> set (indep_loop pick cg rs) \<Longrightarrow> \<exists>cs. g = sort (pick_group pick cg cs)"
proof (induction pick cg rs rule: indep_loop.induct)
  case (1 pick cg rs)
  show ?case
  proof (cases "rs = []")
    case True
    have "indep_loop pick cg rs = []"
      using True by (subst indep_loop.simps) simp
    with "1.prems" show ?thesis by simp
  next
    case False
    let ?g = "pick_group pick cg rs"
    from "1.prems" False
    have "g = sort ?g \<or> g \<in> set (indep_loop pick cg (filter (\<lambda>r. r \<notin> set ?g) rs))"
      by (subst (asm) indep_loop.simps) (simp add: Let_def)
    then show ?thesis
    proof
      assume "g = sort ?g"
      then show ?thesis by blast
    next
      assume "g \<in> set (indep_loop pick cg (filter (\<lambda>r. r \<notin> set ?g) rs))"
      with "1.IH"[OF False refl] show ?thesis by blast
    qed
  qed
qed

text \<open>
  What the loops give for every way of popping and every neighbour relation: two distinct
  members of one group are never both in each other's neighbour set, since the one picked
  later is none of the neighbours of the one picked earlier.
\<close>

theorem group_independent_not_mutual:
  assumes "g \<in> set (fst (group_independent pick pos corrlen))"
    and "i \<in> set g" and "j \<in> set g" and "i \<noteq> j"
  shows "\<not> (j \<in> set (snd (group_independent pick pos corrlen) ! i) \<and>
            i \<in> set (snd (group_independent pick pos corrlen) ! j))"
proof -
  let ?cg = "corr_groups_of pos corrlen"
  from assms(1) have "g \<in> set (indep_loop pick ?cg [0..<length pos])"
    by (simp add: group_independent_def Let_def)
  from indep_loop_groups[OF this] obtain cs where g: "g = sort (pick_group pick ?cg cs)"
    by blast
  have "sorted_wrt (\<lambda>a b. b \<noteq> a \<and> b \<notin> set (?cg ! a)) (pick_group pick ?cg cs)"
    by (rule pick_group_later_free)
  moreover have "i \<in> set (pick_group pick ?cg cs)" "j \<in> set (pick_group pick ?cg cs)"
    using assms(2,3) by (simp_all add: g)
  ultimately have "(j \<noteq> i \<and> j \<notin> set (?cg ! i)) \<or> (i \<noteq> j \<and> i \<notin> set (?cg ! j))"
    using assms(4) by (rule sorted_wrt_two)
  then show ?thesis by (auto simp: group_independent_def Let_def)
qed

lemma in_ball_Fin:
  "in_ball r (Fin a, Fin b) (Fin c, Fin d) \<longleftrightarrow> 0 \<le> r \<and> (a - c) * (a - c) + (b - d) * (b - d) \<le> r * r"
  by (simp add: in_ball_def dist2_def fsub_def Let_def)

lemma seam_indep_groups: "indep_loop least [[0], [0, Suc 0]] [0, Suc 0] = [[0, Suc 0]]"
proof -
  have p1: "pop least [0, Suc 0] = 0" by (simp add: pop_def least_def)
  have p2: "pop least [Suc 0] = Suc 0" by (simp add: pop_def least_def)
  have g3: "pick_group least [[0], [0, Suc 0]] [] = []"
    by (subst pick_group.simps) simp
  have g2: "pick_group least [[0], [0, Suc 0]] [Suc 0] = [Suc 0]"
    by (subst pick_group.simps) (simp add: Let_def p2 g3)
  have g1: "pick_group least [[0], [0, Suc 0]] [0, Suc 0] = [0, Suc 0]"
    by (subst pick_group.simps) (simp add: Let_def p1 g2)
  have l0: "indep_loop least [[0], [0, Suc 0]] [] = []"
    by (subst indep_loop.simps) simp
  show ?thesis
    by (subst indep_loop.simps) (simp add: Let_def g1 l0)
qed


text \<open>
  Two sources on either side of the seam of the right ascension, 1.6 milliradians apart on
  the sky: the first at declination \<open>\<pi>/3 + 1/1000\<close> and right ascension \<open>-\<pi>\<close>, the second
  at declination \<open>\<pi>/3\<close> and right ascension \<open>\<pi> - 1/400\<close>. The correlation length is 2
  milliradians.
\<close>

definition seam_pair :: "point list" where
  "seam_pair = [(Fin (pi / 3 + 1 / 1000), Fin (- pi)), (Fin (pi / 3), Fin (pi - 1 / 400))]"

text \<open>The cosine of the declination of the first source, and the scaled positions of the two
  sources and of their two shifted copies.\<close>

definition seam_cos :: real where
  "seam_cos = cos (pi / 3 + 1 / 1000)"

definition seam_scaled :: "point list" where
  "seam_scaled =
     [(Fin (pi / 3 + 1 / 1000), Fin (- (pi * seam_cos))),
      (Fin (pi / 3), Fin (pi / 2 - 1 / 800)),
      (Fin (pi / 3 + 1 / 1000), Fin (- (3 * (pi * seam_cos)))),
      (Fin (pi / 3), Fin (- (pi / 2) - 1 / 800)),
      (Fin (pi / 3 + 1 / 1000), Fin (pi * seam_cos)),
      (Fin (pi / 3), Fin (3 * pi / 2 - 1 / 800))]"

lemma sin_cubic_bound: "\<bar>sin x - x\<bar> \<le> \<bar>x\<bar> ^ 3 / 6" for x :: real
proof -
  have "\<bar>sin x - (\<Sum>m<3. sin_coeff m * x ^ m)\<bar> \<le> inverse (fact 3) * \<bar>x\<bar> ^ 3"
    by (rule Maclaurin_sin_bound)
  moreover have "(\<Sum>m<3. sin_coeff m * x ^ m) = x"
    by (simp add: sin_coeff_def numeral_3_eq_3)
  moreover have "inverse (fact 3 :: real) = 1 / 6"
    by (simp add: fact_numeral)
  ultimately show ?thesis by simp
qed

lemma pi_le_33: "pi \<le> 33 / 10"
proof (rule ccontr)
  assume "\<not> pi \<le> 33 / 10"
  then have lo: "11 / 20 < pi / 6" by simp
  have hi: "pi / 6 < 2 / 3" using pi_less_4 by simp
  define x where "x = pi / 6"
  have x: "11 / 20 < x" "x < 2 / 3" using lo hi by (simp_all add: x_def)
  have "\<bar>sin x - x\<bar> \<le> \<bar>x\<bar> ^ 3 / 6" by (rule sin_cubic_bound)
  moreover have "\<bar>x\<bar> = x" using x by simp
  ultimately have "x - x ^ 3 / 6 \<le> sin x" by (simp only: abs_le_iff) linarith
  moreover have "sin x = 1 / 2" by (simp add: x_def sin_30)
  ultimately have a: "x - x ^ 3 / 6 \<le> 1 / 2" by (simp only:)
  have "x * x < (2 / 3) * (2 / 3)" using x by (intro mult_strict_mono) simp_all
  then have "x * x < 4 / 9" by simp
  then have "x * (x * x) \<le> x * (4 / 9)" using x by (intro mult_left_mono) simp_all
  then have "x ^ 3 \<le> x * (4 / 9)" by (simp add: power3_eq_cube mult.assoc)
  with a have "x - x * (4 / 9) / 6 \<le> 1 / 2" by linarith
  with x show False by simp
qed

lemma sqrt3_bounds: "17 / 10 \<le> sqrt 3" "sqrt 3 \<le> 17321 / 10000"
proof -
  show "17 / 10 \<le> sqrt 3" by (rule real_le_rsqrt) (simp add: power2_eq_square)
  show "sqrt 3 \<le> 17321 / 10000" by (rule real_le_lsqrt) (simp_all add: power2_eq_square)
qed

lemma small_sin_bounds:
  "999 / 1000000 \<le> sin (1 / 1000 :: real)" "sin (1 / 1000 :: real) \<le> 1 / 1000"
proof -
  have "\<bar>sin (1 / 1000 :: real) - 1 / 1000\<bar> \<le> \<bar>1 / 1000\<bar> ^ 3 / 6" by (rule sin_cubic_bound)
  moreover have "\<bar>1 / 1000 :: real\<bar> ^ 3 / 6 \<le> 1 / 1000000" by (simp add: power3_eq_cube)
  ultimately show "999 / 1000000 \<le> sin (1 / 1000 :: real)" by (simp only: abs_le_iff) linarith
  show "sin (1 / 1000 :: real) \<le> 1 / 1000" by (rule sin_x_le_x) simp
qed

lemma small_cos_bounds:
  "1 - 1 / 2000000 \<le> cos (1 / 1000 :: real)" "cos (1 / 1000 :: real) \<le> 1"
proof -
  have "cos (2 * (1 / 2000 :: real)) = 1 - 2 * sin (1 / 2000) ^ 2" by (rule cos_double_sin)
  moreover have "sin (1 / 2000 :: real) ^ 2 \<le> (1 / 2000) ^ 2"
  proof -
    have "\<bar>sin (1 / 2000 :: real)\<bar> \<le> \<bar>1 / 2000\<bar>" by (rule abs_sin_x_le_abs_x)
    then show ?thesis
      by (simp only: power2_abs[symmetric, of "sin (1 / 2000)"]) (rule power_mono, simp_all)
  qed
  ultimately show "1 - 1 / 2000000 \<le> cos (1 / 1000 :: real)" by (simp add: power2_eq_square)
  show "cos (1 / 1000 :: real) \<le> 1" by simp
qed

lemma seam_cos_bounds: "1 / 2 - 8663 / 10000000 \<le> seam_cos" "seam_cos \<le> 1 / 2 - 8 / 10000"
proof -
  have eq: "seam_cos = 1 / 2 * cos (1 / 1000) - sqrt 3 / 2 * sin (1 / 1000)"
    by (simp add: seam_cos_def cos_add cos_60 sin_60)
  have s: "0 \<le> sin (1 / 1000 :: real)" using small_sin_bounds(1) by simp
  have "sqrt 3 / 2 * sin (1 / 1000) \<le> (17321 / 20000) * (1 / 1000)"
    using sqrt3_bounds(2) small_sin_bounds(2) s by (intro mult_mono) simp_all
  with small_cos_bounds(1)
  have "1 / 2 - 8663 / 10000000 \<le> 1 / 2 * cos (1 / 1000) - sqrt 3 / 2 * sin (1 / 1000)"
    by linarith
  then show "1 / 2 - 8663 / 10000000 \<le> seam_cos" by (simp only: eq)
  have "(17 / 20) * (999 / 1000000) \<le> sqrt 3 / 2 * sin (1 / 1000)"
    using sqrt3_bounds(1) small_sin_bounds(1) by (intro mult_mono) simp_all
  with small_cos_bounds(2)
  have "1 / 2 * cos (1 / 1000) - sqrt 3 / 2 * sin (1 / 1000) \<le> 1 / 2 - 8 / 10000"
    by linarith
  then show "seam_cos \<le> 1 / 2 - 8 / 10000" by (simp only: eq)
qed

text \<open>The scaled right ascension \<open>\<pi> cos(\<pi>/3 + 1/1000)\<close> of the seam, as seen from the first
  source, is between 1 and 2.9 milliradians short of \<open>\<pi>/2\<close>.\<close>

lemma seam_ra_bounds: "pi / 2 - 29 / 10000 \<le> pi * seam_cos" "pi * seam_cos \<le> pi / 2 - 1 / 1000"
proof -
  have u: "8 / 10000 \<le> 1 / 2 - seam_cos" "1 / 2 - seam_cos \<le> 8663 / 10000000"
    using seam_cos_bounds by simp_all
  have "2 * (8 / 10000) \<le> pi * (1 / 2 - seam_cos)"
    using pi_ge_two u(1) by (intro mult_mono) simp_all
  then show "pi * seam_cos \<le> pi / 2 - 1 / 1000" by (simp add: algebra_simps)
  have "pi * (1 / 2 - seam_cos) \<le> (33 / 10) * (8663 / 10000000)"
    using pi_le_33 u by (intro mult_mono) simp_all
  then show "pi / 2 - 29 / 10000 \<le> pi * seam_cos" by (simp add: algebra_simps)
qed

lemma ball_far:
  assumes "0 \<le> r" and "r < \<bar>b - d\<bar>"
  shows "\<not> in_ball r (Fin a, Fin b) (Fin c, Fin d)"
proof -
  have "r * r < \<bar>b - d\<bar> * \<bar>b - d\<bar>" using assms by (intro mult_strict_mono) simp_all
  then have "r * r < (b - d) * (b - d)" by simp
  moreover have "0 \<le> (a - c) * (a - c)" by simp
  ultimately have "r * r < (a - c) * (a - c) + (b - d) * (b - d)" by linarith
  then show ?thesis by (simp add: in_ball_Fin)
qed

lemma ball_near:
  assumes "0 \<le> r" and "\<bar>a - c\<bar> \<le> u" and "\<bar>b - d\<bar> \<le> v" and "u * u + v * v \<le> r * r"
  shows "in_ball r (Fin a, Fin b) (Fin c, Fin d)"
proof -
  have "\<bar>a - c\<bar> * \<bar>a - c\<bar> \<le> u * u" using assms(2) by (intro mult_mono) simp_all
  moreover have "\<bar>b - d\<bar> * \<bar>b - d\<bar> \<le> v * v" using assms(3) by (intro mult_mono) simp_all
  ultimately have "(a - c) * (a - c) + (b - d) * (b - d) \<le> u * u + v * v" by simp
  with assms(1,4) show ?thesis by (simp add: in_ball_Fin)
qed

lemma seam_pair_rewind:
  "map (\<lambda>p. (frewind (fst p), frewind (snd p))) seam_pair = seam_pair"
proof -
  have p: "2 \<le> pi" "pi < 4" using pi_ge_two pi_less_4 by simp_all
  have "rewind (pi / 3 + 1 / 1000) 0 (2 * pi) = pi / 3 + 1 / 1000"
    using p by (intro rewind_small) simp_all
  moreover have "rewind (- pi) 0 (2 * pi) = - pi" by (rule rewind_small) simp_all
  moreover have "rewind (pi / 3) 0 (2 * pi) = pi / 3" by (rule rewind_small) simp_all
  moreover have "rewind (pi - 1 / 400) 0 (2 * pi) = pi - 1 / 400"
    using p by (intro rewind_small) simp_all
  ultimately show ?thesis by (simp add: seam_pair_def)
qed

lemma seam_pair_scaled: "map scale_ra seam_pair = [seam_scaled ! 0, seam_scaled ! 1]"
  by (simp add: seam_pair_def seam_scaled_def scale_ra_def seam_cos_def cos_60)

lemma seam_wrapped_scaled:
  "map scale_ra
     (seam_pair @ map (\<lambda>p. (fst p, fsub (snd p) (Fin (2 * pi)))) seam_pair
                @ map (\<lambda>p. (fst p, fadd (snd p) (Fin (2 * pi)))) seam_pair)
   = seam_scaled"
  by (simp add: seam_pair_def seam_scaled_def scale_ra_def seam_cos_def cos_60 fsub_def
      algebra_simps)

lemma seam_scaled_nth:
  "seam_scaled ! 0 = (Fin (pi / 3 + 1 / 1000), Fin (- (pi * seam_cos)))"
  "seam_scaled ! 1 = (Fin (pi / 3), Fin (pi / 2 - 1 / 800))"
  "seam_scaled ! 2 = (Fin (pi / 3 + 1 / 1000), Fin (- (3 * (pi * seam_cos))))"
  "seam_scaled ! 3 = (Fin (pi / 3), Fin (- (pi / 2) - 1 / 800))"
  "seam_scaled ! 4 = (Fin (pi / 3 + 1 / 1000), Fin (pi * seam_cos))"
  "seam_scaled ! 5 = (Fin (pi / 3), Fin (3 * pi / 2 - 1 / 800))"
  by (simp_all add: seam_scaled_def)

text \<open>The first source reaches only itself: the second source and its copies are further than
  2 milliradians from it in scaled right ascension.\<close>

lemma q0:
  "in_ball (1 / 500) (seam_scaled ! 0) (seam_scaled ! 0)"
  "\<not> in_ball (1 / 500) (seam_scaled ! 0) (seam_scaled ! 1)"
  "\<not> in_ball (1 / 500) (seam_scaled ! 0) (seam_scaled ! 2)"
  "\<not> in_ball (1 / 500) (seam_scaled ! 0) (seam_scaled ! 3)"
  "\<not> in_ball (1 / 500) (seam_scaled ! 0) (seam_scaled ! 4)"
  "\<not> in_ball (1 / 500) (seam_scaled ! 0) (seam_scaled ! 5)"
proof -
  note b = seam_ra_bounds pi_ge_two pi_less_4
  show "in_ball (1 / 500) (seam_scaled ! 0) (seam_scaled ! 0)"
    unfolding seam_scaled_nth by (simp add: in_ball_Fin)
  show "\<not> in_ball (1 / 500) (seam_scaled ! 0) (seam_scaled ! 1)"
    unfolding seam_scaled_nth using b by (intro ball_far) (simp, linarith)
  show "\<not> in_ball (1 / 500) (seam_scaled ! 0) (seam_scaled ! 2)"
    unfolding seam_scaled_nth using b by (intro ball_far) (simp, linarith)
  show "\<not> in_ball (1 / 500) (seam_scaled ! 0) (seam_scaled ! 3)"
    unfolding seam_scaled_nth using b by (intro ball_far) (simp, linarith)
  show "\<not> in_ball (1 / 500) (seam_scaled ! 0) (seam_scaled ! 4)"
    unfolding seam_scaled_nth using b by (intro ball_far) (simp, linarith)
  show "\<not> in_ball (1 / 500) (seam_scaled ! 0) (seam_scaled ! 5)"
    unfolding seam_scaled_nth using b by (intro ball_far) (simp, linarith)
qed

text \<open>The second source reaches itself and the copy of the first source shifted by \<open>+2\<pi>\<close>,
  which is one milliradian from it in declination and at most 1.65 milliradians in scaled
  right ascension.\<close>

lemma q1:
  "\<not> in_ball (1 / 500) (seam_scaled ! 1) (seam_scaled ! 0)"
  "in_ball (1 / 500) (seam_scaled ! 1) (seam_scaled ! 1)"
  "\<not> in_ball (1 / 500) (seam_scaled ! 1) (seam_scaled ! 2)"
  "\<not> in_ball (1 / 500) (seam_scaled ! 1) (seam_scaled ! 3)"
  "in_ball (1 / 500) (seam_scaled ! 1) (seam_scaled ! 4)"
  "\<not> in_ball (1 / 500) (seam_scaled ! 1) (seam_scaled ! 5)"
proof -
  note b = seam_ra_bounds pi_ge_two pi_less_4
  show "\<not> in_ball (1 / 500) (seam_scaled ! 1) (seam_scaled ! 0)"
    unfolding seam_scaled_nth using b by (intro ball_far) (simp, linarith)
  show "in_ball (1 / 500) (seam_scaled ! 1) (seam_scaled ! 1)"
    unfolding seam_scaled_nth by (simp add: in_ball_Fin)
  show "\<not> in_ball (1 / 500) (seam_scaled ! 1) (seam_scaled ! 2)"
    unfolding seam_scaled_nth using b by (intro ball_far) (simp, linarith)
  show "\<not> in_ball (1 / 500) (seam_scaled ! 1) (seam_scaled ! 3)"
    unfolding seam_scaled_nth using b by (intro ball_far) (simp, linarith)
  show "in_ball (1 / 500) (seam_scaled ! 1) (seam_scaled ! 4)"
    unfolding seam_scaled_nth
  proof (rule ball_near[where u = "1 / 1000" and v = "33 / 20000"])
    show "\<bar>pi / 2 - 1 / 800 - pi * seam_cos\<bar> \<le> 33 / 20000" using b by linarith
  qed simp_all
  show "\<not> in_ball (1 / 500) (seam_scaled ! 1) (seam_scaled ! 5)"
    unfolding seam_scaled_nth using b by (intro ball_far) (simp, linarith)
qed

lemma seam_query:
  "query_ball_tree [seam_scaled ! 0, seam_scaled ! 1] seam_scaled (1 / 500) = [[0], [1, 4]]"
proof -
  have six: "[0..<6] = [0, 1, 2, 3, 4, 5]" by (simp add: upt_conv_Cons)
  have len: "length seam_scaled = 6" by (simp add: seam_scaled_def)
  show ?thesis
    unfolding query_ball_tree_def len six
    using q0 q1 by simp
qed

lemma seam_corr_groups: "corr_groups_of seam_pair (1 / 500) = [[0], [0, Suc 0]]"
proof -
  have m: "map (\<lambda>i. i mod 2) [1, 4] = [Suc 0, 0]" by simp
  have s: "sort (remdups [Suc 0, 0]) = [0, Suc 0]" by simp
  have two: "length seam_pair = 2" by (simp add: seam_pair_def)
  show ?thesis
    unfolding corr_groups_of_def Let_def seam_pair_rewind seam_wrapped_scaled seam_pair_scaled
      seam_query two
    by (simp only: list.map m s) simp
qed

lemma seam_pair_result:
  "group_independent least seam_pair (1 / 500) = ([[0, 1]], [[0], [0, 1]])"
proof -
  have "length seam_pair = 2" by (simp add: seam_pair_def)
  then have "[0..<length seam_pair] = [0, Suc 0]" by (simp add: upt_conv_Cons)
  then show ?thesis
    by (simp add: group_independent_def Let_def seam_corr_groups seam_indep_groups)
qed

theorem group_independent_not_mutual_witness:
  "\<not> (1 \<in> set (snd (group_independent least seam_pair (1 / 500)) ! 0) \<and>
      0 \<in> set (snd (group_independent least seam_pair (1 / 500)) ! 1))"
proof -
  have g: "[0, 1] \<in> set (fst (group_independent least seam_pair (1 / 500)))"
    by (simp add: seam_pair_result)
  have "(0::nat) \<in> set [0, 1]" "(1::nat) \<in> set [0, 1]" "(0::nat) \<noteq> 1" by simp_all
  from group_independent_not_mutual [OF g this] show ?thesis .
qed

text \<open>
  C2. The claim: two distinct sources of one independent group are separated by more than
  the correlation length, that is, neither is in the other's correlated-neighbour set. For
  the two sources at the seam and the correlation length of 2 milliradians the function
  returns the single group of both sources, while the first source is in the neighbour set
  of the second.
\<close>

theorem group_independent_correlated_pair:
  "fst (group_independent least seam_pair (1 / 500)) = [[0, 1]] \<and>
   0 \<in> set (snd (group_independent least seam_pair (1 / 500)) ! 1)"
  by (simp add: seam_pair_result)

text \<open>
  C3. The claim: the correlated-neighbour sets are a symmetric relation, also for pairs
  matched through the wraparound of the right ascension. For the two sources at the seam
  the second source matches the copy of the first shifted by \<open>+2\<pi>\<close>, at a distance below 2
  milliradians, so the first is in the neighbour set of the second; the first source is
  more than 2 milliradians in scaled right ascension from the second and from its two
  copies, so the second is not in the neighbour set of the first. The shift of \<open>2\<pi>\<close> is
  scaled with the cosine of the declination of the point that is copied,
  \<open>cos(\<pi>/3 + 1/1000)\<close> for the first source and 1/2 for the second.
\<close>

theorem corr_groups_not_symmetric:
  "snd (group_independent least seam_pair (1 / 500)) = [[0], [0, 1]] \<and>
   0 \<in> set (snd (group_independent least seam_pair (1 / 500)) ! 1) \<and>
   1 \<notin> set (snd (group_independent least seam_pair (1 / 500)) ! 0)"
  by (simp add: seam_pair_result)

subsection \<open>\<^verbatim>\<open>build_filter\<close>: the matched filter and its normalization\<close>

text \<open>
  A map of \<open>ny\<close> by \<open>nx\<close> pixels is a function on its index range, real for the maps and
  complex for their transforms. The arithmetic is that of the real and complex numbers;
  a division by zero, which gives NaN or an infinity in numpy and spoils the whole
  result, is the outcome \<open>NonFinite\<close>.
\<close>

type_synonym cgrid = "nat \<Rightarrow> nat \<Rightarrow> complex"

type_synonym rgrid = "nat \<Rightarrow> nat \<Rightarrow> real"

text \<open>The plane wave of the discrete Fourier transform of length \<open>n\<close>:
  \<open>exp(2\<pi>i k y / n)\<close>.\<close>

definition wave :: "nat \<Rightarrow> int \<Rightarrow> nat \<Rightarrow> complex" where
  "wave n k y = cis (2 * pi * (real_of_int k * real y / real n))"

text \<open>
  Modelled from the spec: \<^verbatim>\<open>enmap.fft\<close> and \<^verbatim>\<open>enmap.ifft\<close> are not among the sources.
  The spec names them as the ``forward/inverse 2D Fourier transform'' of the map
  collaborator; they are the two-dimensional discrete Fourier transform and its inverse,
  in the symmetric convention of the map library, each divided by the square root of the
  number of pixels.
\<close>

definition fft2 :: "nat \<Rightarrow> nat \<Rightarrow> cgrid \<Rightarrow> cgrid" where
  "fft2 ny nx m =
     (\<lambda>ky kx. (\<Sum>y<ny. \<Sum>x<nx. m y x * (cnj (wave ny (int ky) y) * cnj (wave nx (int kx) x)))
               / of_real (sqrt (real (ny * nx))))"

definition ifft2 :: "nat \<Rightarrow> nat \<Rightarrow> cgrid \<Rightarrow> cgrid" where
  "ifft2 ny nx f =
     (\<lambda>y x. (\<Sum>ky<ny. \<Sum>kx<nx. f ky kx * (wave ny (int ky) y * wave nx (int kx) x))
             / of_real (sqrt (real (ny * nx))))"

text \<open>What a call gives: an exception (an empty map has no pixel \<^verbatim>\<open>[0,0]\<close>, and indexing
  raises), a filter spoilt by a division by zero, or a filter.\<close>

datatype filter_result = Raises py_exception | NonFinite | Filter rgrid

text \<open>\<^verbatim>\<open>m = enmap.ifft(beam2d+0j).real\<close> and \<^verbatim>\<open>m /= m[0,0]\<close>: the real-space beam template.\<close>

definition beam_template :: "nat \<Rightarrow> nat \<Rightarrow> rgrid \<Rightarrow> rgrid" where
  "beam_template ny nx beam2d =
     (\<lambda>y x. Re (ifft2 ny nx (\<lambda>ky kx. complex_of_real (beam2d ky kx)) y x)
            / Re (ifft2 ny nx (\<lambda>ky kx. complex_of_real (beam2d ky kx)) 0 0))"

text \<open>\<^verbatim>\<open>enmap.ifft(enmap.fft(m)*filter).real\<close>: the map \<open>m\<close> convolved by a filter.\<close>

definition convolve :: "nat \<Rightarrow> nat \<Rightarrow> rgrid \<Rightarrow> rgrid \<Rightarrow> rgrid" where
  "convolve ny nx m flt =
     (\<lambda>y x. Re (ifft2 ny nx
                  (\<lambda>ky kx. fft2 ny nx (\<lambda>y x. complex_of_real (m y x)) ky kx
                            * complex_of_real (flt ky kx)) y x))"

text \<open>
  \<^verbatim>\<open>filter = beam2d/ps\<close>, \<^verbatim>\<open>norm = enmap.ifft(enmap.fft(m)*filter).real[0,0]\<close>,
  \<^verbatim>\<open>filter /= norm\<close>. The three divisions are by \<^verbatim>\<open>ps\<close>, by \<^verbatim>\<open>m[0,0]\<close> and by
  \<^verbatim>\<open>norm\<close>.
\<close>

definition build_filter :: "nat \<Rightarrow> nat \<Rightarrow> rgrid \<Rightarrow> rgrid \<Rightarrow> filter_result" where
  "build_filter ny nx ps beam2d =
     (if ny = 0 \<or> nx = 0 then Raises IndexError
      else
        let flt = (\<lambda>ky kx. beam2d ky kx / ps ky kx);
            m00 = Re (ifft2 ny nx (\<lambda>ky kx. complex_of_real (beam2d ky kx)) 0 0);
            m = beam_template ny nx beam2d;
            nrm = convolve ny nx m flt 0 0
        in if (\<exists>ky<ny. \<exists>kx<nx. ps ky kx = 0) \<or> m00 = 0 \<or> nrm = 0 then NonFinite
           else Filter (\<lambda>ky kx. flt ky kx / nrm))"

text \<open>The real part of a plane wave in two dimensions, and the index of the frequency
  \<open>-k\<close>.\<close>

definition cosw :: "nat \<Rightarrow> nat \<Rightarrow> nat \<Rightarrow> nat \<Rightarrow> nat \<Rightarrow> nat \<Rightarrow> real" where
  "cosw ny nx ky kx y x = Re (wave ny (int ky) y * wave nx (int kx) x)"

definition neg_freq :: "nat \<Rightarrow> nat \<Rightarrow> nat" where
  "neg_freq n k = (n - k) mod n"

text \<open>A flat noise spectrum and a beam transform on a map of one by two pixels.\<close>

definition flat_noise :: rgrid where
  "flat_noise = (\<lambda>ky kx. 1)"

definition two_mode_beam :: rgrid where
  "two_mode_beam = (\<lambda>ky kx. if kx = 0 then 1 else 1 / 2)"

lemma wave_power: "wave n k y = wave n k 1 ^ y"
  by (simp add: wave_def DeMoivre algebra_simps)

lemma wave_period: "0 < n \<Longrightarrow> wave n k 1 ^ n = 1"
proof -
  assume n: "0 < n"
  have "wave n k 1 ^ n = cis (real n * (2 * pi * (real_of_int k / real n)))"
    by (simp add: wave_def DeMoivre)
  also have "real n * (2 * pi * (real_of_int k / real n)) = 2 * pi * real_of_int k"
    using n by simp
  also have "cis (2 * pi * real_of_int k) = 1"
    by (rule cis_multiple_2pi) simp
  finally show ?thesis .
qed

lemma wave_one_iff:
  assumes n: "0 < n"
  shows "wave n k 1 = 1 \<longleftrightarrow> int n dvd k"
proof
  assume "wave n k 1 = 1"
  then have "cos (2 * pi * (real_of_int k / real n)) = 1"
    by (simp add: wave_def complex_eq_iff)
  then obtain m :: int where m: "2 * pi * (real_of_int k / real n) = real_of_int m * 2 * pi"
    unfolding cos_one_2pi_int by blast
  then have "2 * pi * (real_of_int k / real n - real_of_int m) = 0"
    by (simp add: algebra_simps)
  then have "real_of_int k / real n = real_of_int m" by simp
  then have "real_of_int k = real_of_int m * real n" using n by (simp add: field_simps)
  then have "real_of_int k = real_of_int (m * int n)" by simp
  then have "k = m * int n" by (simp only: of_int_eq_iff)
  then show "int n dvd k" by simp
next
  assume "int n dvd k"
  then obtain m where k: "k = int n * m" by (auto simp: dvd_def)
  have "2 * pi * (real_of_int k * real 1 / real n) = 2 * pi * real_of_int m"
    using n by (simp add: k)
  then have "wave n k 1 = cis (2 * pi * real_of_int m)" by (simp add: wave_def)
  also have "\<dots> = 1" by (rule cis_multiple_2pi) simp
  finally show "wave n k 1 = 1" .
qed

lemma wave_sum:
  assumes n: "0 < n"
  shows "(\<Sum>y<n. wave n k y) = (if int n dvd k then of_nat n else 0)"
proof (cases "int n dvd k")
  case True
  then have w: "wave n k 1 = 1" using wave_one_iff[OF n] by simp
  have "(\<Sum>y<n. wave n k y) = (\<Sum>y<n. wave n k 1 ^ y)"
    by (subst wave_power) simp
  also have "\<dots> = of_nat n" by (simp only: w power_one sum_constant card_lessThan) simp
  finally show ?thesis using True by simp
next
  case False
  then have w: "wave n k 1 \<noteq> 1" using wave_one_iff[OF n] by simp
  have "(\<Sum>y<n. wave n k y) = (\<Sum>y<n. wave n k 1 ^ y)"
    by (subst wave_power) simp
  also have "\<dots> = (wave n k 1 ^ n - 1) / (wave n k 1 - 1)"
    by (rule geometric_sum[OF w])
  also have "\<dots> = 0" by (simp only: wave_period[OF n]) simp
  finally show ?thesis using False by simp
qed

lemma wave_diff: "wave n (a - b) y = wave n a y * cnj (wave n b y)"
  by (simp add: wave_def cis_cnj cis_mult algebra_simps diff_divide_distrib)

lemma wave_orthogonal:
  assumes n: "0 < n" and a: "a < n" and b: "b < n"
  shows "(\<Sum>y<n. wave n (int a) y * cnj (wave n (int b) y)) = (if a = b then of_nat n else 0)"
proof -
  have "int n dvd (int a - int b) \<longleftrightarrow> a = b"
  proof
    assume d: "int n dvd (int a - int b)"
    have "\<bar>int a - int b\<bar> < int n" using a b by linarith
    with d have "int a - int b = 0"
      using zdvd_not_zless[of "\<bar>int a - int b\<bar>" "int n"] by (cases "int a - int b = 0") auto
    then show "a = b" by simp
  qed simp
  then show ?thesis
    using wave_sum[OF n, of "int a - int b"] by (simp add: wave_diff)
qed

lemma sum_exchange:
  fixes g :: "nat \<Rightarrow> complex"
  shows "(\<Sum>x<n. (\<Sum>b<m. g b * v b x) * q x) = (\<Sum>b<m. g b * (\<Sum>x<n. v b x * q x))"
proof -
  have "(\<Sum>x<n. (\<Sum>b<m. g b * v b x) * q x) = (\<Sum>x<n. \<Sum>b<m. g b * (v b x * q x))"
    by (simp only: sum_distrib_right mult.assoc)
  also have "\<dots> = (\<Sum>b<m. \<Sum>x<n. g b * (v b x * q x))"
    by (rule sum.swap)
  also have "\<dots> = (\<Sum>b<m. g b * (\<Sum>x<n. v b x * q x))"
    by (simp only: sum_distrib_left)
  finally show ?thesis .
qed

lemma sum_exchange2:
  fixes h :: "nat \<Rightarrow> nat \<Rightarrow> complex"
  shows "(\<Sum>x<n. (\<Sum>a<m. h a x * c a) * q x) = (\<Sum>a<m. (\<Sum>x<n. h a x * q x) * c a)"
proof -
  have "(\<Sum>x<n. (\<Sum>a<m. h a x * c a) * q x) = (\<Sum>x<n. \<Sum>a<m. (h a x * q x) * c a)"
    by (simp only: sum_distrib_right mult.assoc mult.commute[of "c _"])
  also have "\<dots> = (\<Sum>a<m. \<Sum>x<n. (h a x * q x) * c a)"
    by (rule sum.swap)
  also have "\<dots> = (\<Sum>a<m. (\<Sum>x<n. h a x * q x) * c a)"
    by (simp only: sum_distrib_right)
  finally show ?thesis .
qed

lemma sum_delta_lt:
  fixes g :: "nat \<Rightarrow> complex"
  shows "k < n \<Longrightarrow> (\<Sum>b<n. g b * (if b = k then c else 0)) = g k * c"
proof -
  assume "k < n"
  have "(\<Sum>b<n. g b * (if b = k then c else 0)) = (\<Sum>b<n. if b = k then g k * c else 0)"
    by (rule sum.cong) simp_all
  also have "\<dots> = g k * c" using \<open>k < n\<close> by simp
  finally show ?thesis .
qed

lemma sum_orthogonal:
  fixes g :: "nat \<Rightarrow> complex"
  assumes "0 < n" "k < n"
  shows "(\<Sum>y<n. (\<Sum>a<n. g a * wave n (int a) y) * cnj (wave n (int k) y)) = g k * of_nat n"
proof -
  have "(\<Sum>y<n. (\<Sum>a<n. g a * wave n (int a) y) * cnj (wave n (int k) y))
      = (\<Sum>a<n. g a * (\<Sum>y<n. wave n (int a) y * cnj (wave n (int k) y)))"
    by (rule sum_exchange)
  also have "\<dots> = (\<Sum>a<n. g a * (if a = k then of_nat n else 0))"
    by (rule sum.cong) (simp_all add: wave_orthogonal assms)
  also have "\<dots> = g k * of_nat n"
    by (rule sum_delta_lt[OF assms(2)])
  finally show ?thesis .
qed

lemma fft2_ifft2:
  assumes "0 < ny" "0 < nx" "ky < ny" "kx < nx"
  shows "fft2 ny nx (ifft2 ny nx f) ky kx = f ky kx"
proof -
  let ?s = "complex_of_real (sqrt (real (ny * nx)))"
  have "?s * ?s = of_real (sqrt (real (ny * nx)) * sqrt (real (ny * nx)))"
    by (simp only: of_real_mult)
  also have "sqrt (real (ny * nx)) * sqrt (real (ny * nx)) = real ny * real nx" by simp
  also have "complex_of_real (real ny * real nx) = of_nat ny * of_nat nx" by simp
  finally have s: "?s * ?s = of_nat ny * of_nat nx" .
  have nz: "?s \<noteq> 0" using assms by simp
  have inner: "(\<Sum>x<nx. (\<Sum>a<ny. \<Sum>b<nx. f a b * (wave ny (int a) y * wave nx (int b) x))
                    * (cnj (wave ny (int ky) y) * cnj (wave nx (int kx) x)))
             = (\<Sum>a<ny. f a kx * of_nat nx * wave ny (int a) y) * cnj (wave ny (int ky) y)" for y
  proof -
    have "(\<Sum>x<nx. (\<Sum>a<ny. \<Sum>b<nx. f a b * (wave ny (int a) y * wave nx (int b) x))
                    * (cnj (wave ny (int ky) y) * cnj (wave nx (int kx) x)))
        = (\<Sum>x<nx. (\<Sum>a<ny. (\<Sum>b<nx. f a b * wave nx (int b) x) * wave ny (int a) y)
                    * cnj (wave nx (int kx) x)) * cnj (wave ny (int ky) y)"
      by (simp add: sum_distrib_right sum_distrib_left mult_ac)
    also have "(\<Sum>x<nx. (\<Sum>a<ny. (\<Sum>b<nx. f a b * wave nx (int b) x) * wave ny (int a) y)
                    * cnj (wave nx (int kx) x))
        = (\<Sum>a<ny. (\<Sum>x<nx. (\<Sum>b<nx. f a b * wave nx (int b) x) * cnj (wave nx (int kx) x))
                    * wave ny (int a) y)"
      by (rule sum_exchange2)
    also have "\<dots> = (\<Sum>a<ny. f a kx * of_nat nx * wave ny (int a) y)"
      using assms by (simp only: sum_orthogonal)
    finally show ?thesis .
  qed
  have "(\<Sum>y<ny. \<Sum>x<nx. (\<Sum>a<ny. \<Sum>b<nx. f a b * (wave ny (int a) y * wave nx (int b) x))
                    * (cnj (wave ny (int ky) y) * cnj (wave nx (int kx) x)))
      = (\<Sum>y<ny. (\<Sum>a<ny. (f a kx * of_nat nx) * wave ny (int a) y) * cnj (wave ny (int ky) y))"
    by (simp only: inner)
  also have "\<dots> = f ky kx * of_nat nx * of_nat ny"
    using assms by (simp only: sum_orthogonal)
  finally have tot: "(\<Sum>y<ny. \<Sum>x<nx. (\<Sum>a<ny. \<Sum>b<nx. f a b * (wave ny (int a) y * wave nx (int b) x))
                    * (cnj (wave ny (int ky) y) * cnj (wave nx (int kx) x)))
      = f ky kx * (?s * ?s)"
    by (simp only: s mult.assoc mult.commute[of "of_nat nx"])
  have "fft2 ny nx (ifft2 ny nx f) ky kx
      = (\<Sum>y<ny. \<Sum>x<nx. (\<Sum>a<ny. \<Sum>b<nx. f a b * (wave ny (int a) y * wave nx (int b) x))
                    * (cnj (wave ny (int ky) y) * cnj (wave nx (int kx) x))) * (inverse ?s * inverse ?s)"
    by (simp add: fft2_def ifft2_def divide_inverse sum_distrib_right sum_distrib_left mult_ac)
  also have "\<dots> = f ky kx * ((?s * inverse ?s) * (?s * inverse ?s))"
    by (simp only: tot) (simp only: mult_ac)
  also have "\<dots> = f ky kx" by (simp only: right_inverse[OF nz] mult_1_right)
  finally show ?thesis .
qed

lemma wave_0 [simp]: "wave n k 0 = 1"
  by (simp add: wave_def)

lemma cosw_0 [simp]: "cosw ny nx ky kx 0 0 = 1"
  by (simp add: cosw_def)

lemma cosw_le_1: "cosw ny nx ky kx y x \<le> 1"
proof -
  have "cosw ny nx ky kx y x \<le> cmod (wave ny (int ky) y * wave nx (int kx) x)"
    unfolding cosw_def by (rule complex_Re_le_cmod)
  also have "\<dots> = 1" by (simp add: wave_def norm_mult)
  finally show ?thesis .
qed

lemma Re_ifft2_real:
  "Re (ifft2 ny nx (\<lambda>ky kx. complex_of_real (g ky kx)) y x)
     = (\<Sum>ky<ny. \<Sum>kx<nx. g ky kx * cosw ny nx ky kx y x) / sqrt (real (ny * nx))"
  by (simp add: ifft2_def cosw_def)

lemma wave_neg:
  assumes "0 < n" "k < n"
  shows "wave n (int ((n - k) mod n)) y = cnj (wave n (int k) y)"
proof -
  have full: "wave n (int n) y = 1"
  proof -
    have "wave n (int n) y = cis (2 * pi * real y)" using assms(1) by (simp add: wave_def)
    also have "\<dots> = 1" by (rule cis_multiple_2pi) simp
    finally show ?thesis .
  qed
  show ?thesis
  proof (cases "k = 0")
    case True
    then show ?thesis using assms by (simp add: wave_def)
  next
    case False
    then have "(n - k) mod n = n - k" using assms by simp
    moreover have "int (n - k) = int n - int k" using assms by simp
    ultimately show ?thesis by (simp add: wave_diff full)
  qed
qed

lemma fft2_cnj:
  assumes "0 < ny" "0 < nx" "ky < ny" "kx < nx"
  shows "fft2 ny nx (\<lambda>y x. cnj (g y x)) ky kx
       = cnj (fft2 ny nx g (neg_freq ny ky) (neg_freq nx kx))"
  using assms by (simp add: fft2_def neg_freq_def wave_neg)

lemma fft2_add:
  "fft2 ny nx (\<lambda>y x. g y x + h y x) ky kx = fft2 ny nx g ky kx + fft2 ny nx h ky kx"
  by (simp only: fft2_def distrib_right sum.distrib add_divide_distrib)

lemma fft2_scale:
  "fft2 ny nx (\<lambda>y x. g y x / c) ky kx = fft2 ny nx g ky kx / c"
proof -
  have "(\<Sum>y<ny. \<Sum>x<nx. g y x / c * (cnj (wave ny (int ky) y) * cnj (wave nx (int kx) x)))
      = (\<Sum>y<ny. \<Sum>x<nx. g y x * (cnj (wave ny (int ky) y) * cnj (wave nx (int kx) x))) / c"
    by (simp only: times_divide_eq_left sum_divide_distrib)
  then show ?thesis
    by (simp only: fft2_def divide_divide_eq_left mult.commute)
qed

lemma fft2_Re:
  assumes "0 < ny" "0 < nx" "ky < ny" "kx < nx"
  shows "fft2 ny nx (\<lambda>y x. complex_of_real (Re (g y x) / c)) ky kx
       = (fft2 ny nx g ky kx + cnj (fft2 ny nx g (neg_freq ny ky) (neg_freq nx kx)))
           / complex_of_real (2 * c)"
proof -
  have "complex_of_real (Re z / c) = (z + cnj z) / complex_of_real (2 * c)" for z
  proof -
    have "(z + cnj z) / complex_of_real (2 * c) = complex_of_real (2 * Re z) / complex_of_real (2 * c)"
      by (simp only: complex_add_cnj)
    also have "\<dots> = complex_of_real (2 * Re z / (2 * c))"
      by (simp only: of_real_divide)
    also have "2 * Re z / (2 * c) = Re z / c" by simp
    finally show ?thesis by simp
  qed
  then have "fft2 ny nx (\<lambda>y x. complex_of_real (Re (g y x) / c)) ky kx
      = fft2 ny nx (\<lambda>y x. (g y x + cnj (g y x)) / complex_of_real (2 * c)) ky kx"
    by simp
  also have "\<dots> = (fft2 ny nx g ky kx + fft2 ny nx (\<lambda>y x. cnj (g y x)) ky kx)
                     / complex_of_real (2 * c)"
    by (simp only: fft2_scale fft2_add)
  finally show ?thesis by (simp only: fft2_cnj[OF assms])
qed

lemma neg_freq_less: "0 < n \<Longrightarrow> neg_freq n k < n"
  by (simp add: neg_freq_def)

lemma fft2_beam_template:
  assumes "0 < ny" "0 < nx" "ky < ny" "kx < nx"
    and sym: "\<forall>ky<ny. \<forall>kx<nx. B (neg_freq ny ky) (neg_freq nx kx) = B ky kx"
  shows "fft2 ny nx (\<lambda>y x. complex_of_real (beam_template ny nx B y x)) ky kx
       = complex_of_real (B ky kx / Re (ifft2 ny nx (\<lambda>ky kx. complex_of_real (B ky kx)) 0 0))"
proof -
  let ?g = "ifft2 ny nx (\<lambda>ky kx. complex_of_real (B ky kx))"
  let ?c = "Re (?g 0 0)"
  have a: "fft2 ny nx ?g ky kx = complex_of_real (B ky kx)"
    using assms(1-4) by (rule fft2_ifft2)
  have "fft2 ny nx ?g (neg_freq ny ky) (neg_freq nx kx)
      = complex_of_real (B (neg_freq ny ky) (neg_freq nx kx))"
    using assms(1,2) by (intro fft2_ifft2 neg_freq_less)
  also have "\<dots> = complex_of_real (B ky kx)" using sym assms(3,4) by simp
  finally have b: "fft2 ny nx ?g (neg_freq ny ky) (neg_freq nx kx) = complex_of_real (B ky kx)" .
  have "fft2 ny nx (\<lambda>y x. complex_of_real (beam_template ny nx B y x)) ky kx
      = (fft2 ny nx ?g ky kx + cnj (fft2 ny nx ?g (neg_freq ny ky) (neg_freq nx kx)))
          / complex_of_real (2 * ?c)"
    unfolding beam_template_def using assms(1-4) by (rule fft2_Re)
  also have "\<dots> = complex_of_real (B ky kx + B ky kx) / complex_of_real (2 * ?c)"
    by (simp only: a b complex_cnj_complex_of_real of_real_add)
  also have "\<dots> = complex_of_real ((B ky kx + B ky kx) / (2 * ?c))"
    by (simp only: of_real_divide)
  also have "(B ky kx + B ky kx) / (2 * ?c) = B ky kx / ?c" by simp
  finally show ?thesis .
qed

lemma ifft2_cong:
  assumes "\<And>ky kx. ky < ny \<Longrightarrow> kx < nx \<Longrightarrow> f ky kx = g ky kx"
  shows "ifft2 ny nx f y x = ifft2 ny nx g y x"
proof -
  have "(\<Sum>ky<ny. \<Sum>kx<nx. f ky kx * (wave ny (int ky) y * wave nx (int kx) x))
      = (\<Sum>ky<ny. \<Sum>kx<nx. g ky kx * (wave ny (int ky) y * wave nx (int kx) x))"
    by (intro sum.cong refl) (simp add: assms)
  then show ?thesis by (simp only: ifft2_def)
qed

lemma convolve_beam_template:
  assumes "0 < ny" "0 < nx"
    and sym: "\<forall>ky<ny. \<forall>kx<nx. B (neg_freq ny ky) (neg_freq nx kx) = B ky kx"
  shows "convolve ny nx (beam_template ny nx B) flt y x
       = (\<Sum>ky<ny. \<Sum>kx<nx.
            B ky kx / Re (ifft2 ny nx (\<lambda>ky kx. complex_of_real (B ky kx)) 0 0) * flt ky kx
              * cosw ny nx ky kx y x) / sqrt (real (ny * nx))"
proof -
  let ?c = "Re (ifft2 ny nx (\<lambda>ky kx. complex_of_real (B ky kx)) 0 0)"
  let ?h = "\<lambda>ky kx. fft2 ny nx (\<lambda>y x. complex_of_real (beam_template ny nx B y x)) ky kx
                   * complex_of_real (flt ky kx)"
  have "ifft2 ny nx ?h y x = ifft2 ny nx (\<lambda>ky kx. complex_of_real (B ky kx / ?c * flt ky kx)) y x"
  proof (rule ifft2_cong)
    fix ky kx assume k: "ky < ny" "kx < nx"
    show "?h ky kx = complex_of_real (B ky kx / ?c * flt ky kx)"
      by (simp only: fft2_beam_template[OF assms(1,2) k sym] of_real_mult)
  qed
  then show ?thesis
    unfolding convolve_def by (simp only: Re_ifft2_real)
qed

lemma double_sum_pos:
  fixes f :: "nat \<Rightarrow> nat \<Rightarrow> real"
  assumes nonneg: "\<And>a b. a < ny \<Longrightarrow> b < nx \<Longrightarrow> 0 \<le> f a b"
    and pos: "a < ny" "b < nx" "0 < f a b"
  shows "0 < (\<Sum>a<ny. \<Sum>b<nx. f a b)"
proof -
  have inner_nonneg: "0 \<le> (\<Sum>b<nx. f i b)" if "i < ny" for i
    using nonneg that by (intro sum_nonneg) simp
  have inner_pos: "0 < (\<Sum>b<nx. f a b)"
    by (rule sum_pos2[of "{..<nx}" b]) (use pos nonneg in auto)
  show ?thesis
    by (rule sum_pos2[of "{..<ny}" a]) (use pos inner_pos inner_nonneg in auto)
qed

lemma double_sum_nonzero:
  fixes f :: "nat \<Rightarrow> nat \<Rightarrow> real"
  assumes "(\<Sum>a<ny. \<Sum>b<nx. f a b) \<noteq> 0"
  shows "\<exists>a<ny. \<exists>b<nx. f a b \<noteq> 0"
proof (rule ccontr)
  assume "\<not> (\<exists>a<ny. \<exists>b<nx. f a b \<noteq> 0)"
  then have "(\<Sum>a<ny. \<Sum>b<nx. f a b) = 0" by simp
  with assms show False by simp
qed

text \<open>
  C1. For a noise power spectrum \<open>P\<close> that is positive everywhere and a beam transform
  \<open>B\<close>, \<^verbatim>\<open>build_filter\<close> returns \<open>B/P\<close> divided by a non-zero constant, and the real-space
  beam template, which is 1 at the pixel \<^verbatim>\<open>[0,0]\<close> (its peak when \<open>B\<close> is not negative),
  convolved by the returned filter gives a map that is 1 at the pixel \<^verbatim>\<open>[0,0]\<close> and at
  most 1 everywhere: its peak value is 1. A beam transform is isotropic, a function of
  \<open>|l|\<close> (\<^verbatim>\<open>calc_2d_beam\<close>), so it takes the same value at \<open>l\<close> and \<open>-l\<close>, and its
  real-space centre \<open>m[0,0]\<close>, the sum of the transform, is not zero. Numbers are real
  numbers, as in the spec's ``exactly 1 (within floating-point tolerance)''.
\<close>

theorem build_filter_unit_peak:
  assumes ny: "0 < ny" and nx: "0 < nx"
    and P: "\<forall>ky<ny. \<forall>kx<nx. 0 < P ky kx"
    and sym: "\<forall>ky<ny. \<forall>kx<nx. B (neg_freq ny ky) (neg_freq nx kx) = B ky kx"
    and nz: "(\<Sum>ky<ny. \<Sum>kx<nx. B ky kx) \<noteq> 0"
  shows "\<exists>F c. build_filter ny nx P B = Filter F \<and> c \<noteq> 0 \<and>
           (\<forall>ky<ny. \<forall>kx<nx. F ky kx = B ky kx / P ky kx / c) \<and>
           beam_template ny nx B 0 0 = 1 \<and>
           ((\<forall>ky<ny. \<forall>kx<nx. 0 \<le> B ky kx) \<longrightarrow>
              (\<forall>y<ny. \<forall>x<nx. beam_template ny nx B y x \<le> 1)) \<and>
           convolve ny nx (beam_template ny nx B) F 0 0 = 1 \<and>
           (\<forall>y<ny. \<forall>x<nx. convolve ny nx (beam_template ny nx B) F y x \<le> 1)"
proof -
  define s where "s = sqrt (real (ny * nx))"
  define m00 where "m00 = Re (ifft2 ny nx (\<lambda>ky kx. complex_of_real (B ky kx)) 0 0)"
  define flt where "flt = (\<lambda>ky kx. B ky kx / P ky kx)"
  define T where "T = (\<lambda>y x. \<Sum>ky<ny. \<Sum>kx<nx. B ky kx * B ky kx / P ky kx * cosw ny nx ky kx y x)"
  define S where "S = (\<Sum>ky<ny. \<Sum>kx<nx. B ky kx * B ky kx / P ky kx)"
  define nrm where "nrm = convolve ny nx (beam_template ny nx B) flt 0 0"
  have s: "0 < s" using ny nx by (simp add: s_def)
  have m00: "m00 = (\<Sum>ky<ny. \<Sum>kx<nx. B ky kx) / s"
    by (simp add: m00_def s_def Re_ifft2_real)
  have m00_nz: "m00 \<noteq> 0" using nz s by (simp add: m00)
  have term_nonneg: "0 \<le> B ky kx * B ky kx / P ky kx" if "ky < ny" "kx < nx" for ky kx
    using P that by (simp add: less_imp_le)
  from double_sum_nonzero[OF nz] obtain a b where ab: "a < ny" "b < nx" "B a b \<noteq> 0" by blast
  have "0 < B a b * B a b / P a b"
    using ab P by (simp add: zero_less_mult_iff not_less less_le)
  then have S: "0 < S"
    unfolding S_def using term_nonneg ab(1,2) by (intro double_sum_pos[of ny nx _ a b]) simp_all
  have T0: "T 0 0 = S" by (simp add: T_def S_def)
  have T_le: "T y x \<le> S" for y x
    unfolding T_def S_def
  proof (intro sum_mono)
    fix ky kx assume "ky \<in> {..<ny}" "kx \<in> {..<nx}"
    then have "0 \<le> B ky kx * B ky kx / P ky kx" using term_nonneg by simp
    with cosw_le_1[of ny nx ky kx y x]
    show "B ky kx * B ky kx / P ky kx * cosw ny nx ky kx y x \<le> B ky kx * B ky kx / P ky kx"
      by (rule mult_left_le)
  qed
  have conv: "convolve ny nx (beam_template ny nx B) (\<lambda>ky kx. flt ky kx / c) y x
      = T y x / (m00 * c * s)" for c y x
  proof -
    have "convolve ny nx (beam_template ny nx B) (\<lambda>ky kx. flt ky kx / c) y x
        = (\<Sum>ky<ny. \<Sum>kx<nx. B ky kx / m00 * (flt ky kx / c) * cosw ny nx ky kx y x) / s"
      unfolding m00_def s_def by (rule convolve_beam_template[OF ny nx sym])
    also have "(\<Sum>ky<ny. \<Sum>kx<nx. B ky kx / m00 * (flt ky kx / c) * cosw ny nx ky kx y x)
        = (\<Sum>ky<ny. \<Sum>kx<nx. B ky kx * B ky kx / P ky kx * cosw ny nx ky kx y x / (m00 * c))"
      by (intro sum.cong refl) (simp add: flt_def)
    also have "\<dots> = T y x / (m00 * c)"
      by (simp only: T_def sum_divide_distrib)
    finally show ?thesis by (simp add: mult.assoc)
  qed
  have nrm: "nrm = S / (m00 * s)"
    using conv[of 1 0 0] by (simp add: nrm_def T0)
  have nrm_nz: "nrm \<noteq> 0" using S m00_nz s by (simp add: nrm)
  have prod: "m00 * nrm * s = S" using m00_nz s by (simp add: nrm)
  have Pnz: "\<not> (\<exists>ky<ny. \<exists>kx<nx. P ky kx = 0)"
  proof
    assume "\<exists>ky<ny. \<exists>kx<nx. P ky kx = 0"
    then obtain ky kx where "ky < ny" "kx < nx" "P ky kx = 0" by blast
    with P have "0 < (0::real)" by metis
    then show False by simp
  qed
  have bf: "build_filter ny nx P B = Filter (\<lambda>ky kx. flt ky kx / nrm)"
    using ny nx Pnz m00_nz nrm_nz
    unfolding build_filter_def Let_def m00_def[symmetric] flt_def[symmetric] nrm_def[symmetric]
    by simp
  have c1: "convolve ny nx (beam_template ny nx B) (\<lambda>ky kx. flt ky kx / nrm) y x = T y x / S"
    for y x by (simp only: conv prod)
  have "beam_template ny nx B 0 0 = 1"
    using m00_nz by (simp add: beam_template_def m00_def)
  moreover have "(\<forall>ky<ny. \<forall>kx<nx. 0 \<le> B ky kx) \<longrightarrow>
      (\<forall>y<ny. \<forall>x<nx. beam_template ny nx B y x \<le> 1)"
  proof (intro impI allI)
    fix y x
    assume B0: "\<forall>ky<ny. \<forall>kx<nx. 0 \<le> B ky kx"
    have le: "(\<Sum>ky<ny. \<Sum>kx<nx. B ky kx * cosw ny nx ky kx y x) \<le> (\<Sum>ky<ny. \<Sum>kx<nx. B ky kx)"
    proof (intro sum_mono)
      fix ky kx assume "ky \<in> {..<ny}" "kx \<in> {..<nx}"
      then have "0 \<le> B ky kx" using B0 by simp
      with cosw_le_1[of ny nx ky kx y x]
      show "B ky kx * cosw ny nx ky kx y x \<le> B ky kx" by (rule mult_left_le)
    qed
    have "0 \<le> (\<Sum>ky<ny. \<Sum>kx<nx. B ky kx)"
      using B0 by (intro sum_nonneg) simp
    with nz have pos: "0 < (\<Sum>ky<ny. \<Sum>kx<nx. B ky kx)" by simp
    have "beam_template ny nx B y x
        = (\<Sum>ky<ny. \<Sum>kx<nx. B ky kx * cosw ny nx ky kx y x) / (\<Sum>ky<ny. \<Sum>kx<nx. B ky kx)"
      using s by (simp add: beam_template_def Re_ifft2_real s_def[symmetric])
    also have "\<dots> \<le> 1" using le pos by (simp add: divide_le_eq)
    finally show "beam_template ny nx B y x \<le> 1" .
  qed
  moreover have "convolve ny nx (beam_template ny nx B) (\<lambda>ky kx. flt ky kx / nrm) 0 0 = 1"
    using S by (simp add: c1 T0)
  moreover have "\<forall>y<ny. \<forall>x<nx.
      convolve ny nx (beam_template ny nx B) (\<lambda>ky kx. flt ky kx / nrm) y x \<le> 1"
    using S T_le by (simp add: c1 divide_le_eq)
  moreover have "\<forall>ky<ny. \<forall>kx<nx. flt ky kx / nrm = B ky kx / P ky kx / nrm"
    by (simp add: flt_def)
  ultimately show ?thesis using bf nrm_nz by blast
qed

theorem build_filter_unit_peak_witness:
  "\<exists>F c. build_filter 1 2 flat_noise two_mode_beam = Filter F \<and> c \<noteq> 0 \<and>
     (\<forall>ky<1. \<forall>kx<2. F ky kx = two_mode_beam ky kx / flat_noise ky kx / c) \<and>
     beam_template 1 2 two_mode_beam 0 0 = 1 \<and>
     ((\<forall>ky<1. \<forall>kx<2. 0 \<le> two_mode_beam ky kx) \<longrightarrow>
        (\<forall>y<1. \<forall>x<2. beam_template 1 2 two_mode_beam y x \<le> 1)) \<and>
     convolve 1 2 (beam_template 1 2 two_mode_beam) F 0 0 = 1 \<and>
     (\<forall>y<1. \<forall>x<2. convolve 1 2 (beam_template 1 2 two_mode_beam) F y x \<le> 1)"
proof (rule build_filter_unit_peak)
  show "(0::nat) < 1" "(0::nat) < 2" by simp_all
  show "\<forall>ky<1. \<forall>kx<2. 0 < flat_noise ky kx" by (simp add: flat_noise_def)
  show "\<forall>ky<1. \<forall>kx<2. two_mode_beam (neg_freq 1 ky) (neg_freq 2 kx) = two_mode_beam ky kx"
    by (simp add: two_mode_beam_def neg_freq_def less_Suc_eq numeral_2_eq_2)
  have "(\<Sum>ky<1. \<Sum>kx<2. two_mode_beam ky kx) = 3 / 2"
    by (simp add: two_mode_beam_def numeral_2_eq_2)
  then show "(\<Sum>ky<1. \<Sum>kx<2. two_mode_beam ky kx) \<noteq> 0" by simp
qed

end
